theory Spec2Isabelle
  imports Complex_Main
begin

section \<open>Go runtime conventions\<close>

text \<open>
  Go's \<open>int64\<close> is modelled as \<open>int\<close> with the two's complement wrap-around written
  out by \<open>int64\<close>: every arithmetic result of the source is passed through it.  The ways
  a Go process stops early are values of \<open>abort\<close>: \<open>os.Exit(code)\<close>, \<open>log.Fatal\<close>
  (which logs and exits with status 1), a runtime panic (index or slice out of range,
  integer division by zero) and a goroutine that blocks for ever.
\<close>

definition int64 :: "int \<Rightarrow> int" where
  "int64 x = (x + 2 ^ 63) mod 2 ^ 64 - 2 ^ 63"

definition is_int64 :: "int \<Rightarrow> bool" where
  "is_int64 x = (- (2 ^ 63) \<le> x \<and> x < 2 ^ 63)"

datatype abort = OsExit int | LogFatal | RuntimePanic | Blocked

definition ENOENT :: int where "ENOENT = 2"
definition EIO :: int where "EIO = 5"
definition EBUSY :: int where "EBUSY = 16"

text \<open>Indexing a slice: a panic when the index is out of range.\<close>

definition index :: "'a list \<Rightarrow> nat \<Rightarrow> abort + 'a" where
  "index xs i = (if i < length xs then Inr (xs ! i) else Inl RuntimePanic)"

text \<open>
  The slice expression \<open>s[lo:hi]\<close> on a string or slice of length \<open>n\<close>: Go panics unless
  \<open>0 \<le> lo \<le> hi \<le> n\<close>.
\<close>

definition slice :: "'a list \<Rightarrow> int \<Rightarrow> int \<Rightarrow> abort + 'a list" where
  "slice s lo hi =
     (if 0 \<le> lo \<and> lo \<le> hi \<and> hi \<le> int (length s)
      then Inr (take (nat hi - nat lo) (drop (nat lo) s))
      else Inl RuntimePanic)"

text \<open>\<open>strconv.FormatInt(i, 10)\<close>: the decimal digits, with a leading minus sign.\<close>

fun digits10 :: "nat \<Rightarrow> string" where
  "digits10 n =
     (if n < 10 then [''0123456789'' ! n]
      else digits10 (n div 10) @ [''0123456789'' ! (n mod 10)])"

declare digits10.simps [simp del]

definition FormatInt :: "int \<Rightarrow> string" where
  "FormatInt i = (if i < 0 then CHR ''-'' # digits10 (nat (- i)) else digits10 (nat i))"

section \<open>downloader.go: range strings and chunk boundaries\<close>

text \<open>
  \<open>GenerateRangeString\<close> walks \<open>ranges\<close> by index; \<open>ranges[i][0]\<close> and \<open>ranges[i][1]\<close>
  panic when the inner slice is too short.
\<close>

function GenerateRangeString_loop :: "int list list \<Rightarrow> nat \<Rightarrow> string \<Rightarrow> abort + string" where
  "GenerateRangeString_loop ranges i rangeString =
     (if i < length ranges then
        (case index (ranges ! i) 0 of
           Inl e \<Rightarrow> Inl e
         | Inr lo \<Rightarrow>
            (case index (ranges ! i) 1 of
               Inl e \<Rightarrow> Inl e
             | Inr hi \<Rightarrow>
                 GenerateRangeString_loop ranges (i + 1)
                   (rangeString @ FormatInt lo @ ''-'' @ FormatInt (int64 (hi - 1))
                      @ (if i + 1 < length ranges then '','' else ''''))))
      else Inr rangeString)"
  by pat_completeness auto
termination
  by (relation "measure (\<lambda>(ranges, i, rangeString). length ranges - i)") auto

declare GenerateRangeString_loop.simps [simp del]

definition GenerateRangeString :: "int list list \<Rightarrow> abort + string" where
  "GenerateRangeString ranges = GenerateRangeString_loop ranges 0 ''bytes=''"

definition ChunkFinished :: "int \<Rightarrow> int \<Rightarrow> int \<Rightarrow> int \<Rightarrow> bool" where
  "ChunkFinished curChunkStart curProgress fileSize chunkSize =
     (curProgress = chunkSize \<or> int64 (curChunkStart + curProgress) \<ge> fileSize)"

text \<open>
  The wire format as the specification words it: the inclusive ranges
  \<open>a-(b-1)\<close>, separated by commas, after \<open>bytes=\<close>.
\<close>

fun wire_ranges :: "(int \<times> int) list \<Rightarrow> string" where
  "wire_ranges [] = ''''"
| "wire_ranges [(a, b)] = FormatInt a @ ''-'' @ FormatInt (b - 1)"
| "wire_ranges ((a, b) # r # rs) = FormatInt a @ ''-'' @ FormatInt (b - 1) @ '','' @ wire_ranges (r # rs)"

text \<open>
  A half-open range \<open>[a, b)\<close> of byte offsets, and the two-element inner slice
  \<open>{a, b}\<close> that carries it in the \<open>[][]int64\<close> argument.
\<close>

definition half_open :: "int \<times> int \<Rightarrow> bool" where
  "half_open r = (0 \<le> fst r \<and> fst r \<le> snd r \<and> snd r < 2 ^ 63)"

definition range_pair :: "int \<times> int \<Rightarrow> int list" where
  "range_pair r = [fst r, snd r]"

section \<open>http_downloader.go\<close>

text \<open>
  The flag variables \<open>opts\<close> that the functions below read, and the float64 global
  \<open>minSpeedBytesPerMillisecond\<close> derived from \<open>--min-speed\<close>.
\<close>

record Options =
  ChunkSize :: int
  RetryCount :: int
  RetryWait :: int
  MaxWait :: int
  MinSpeedWait :: int
  Headers :: "(string \<times> string) list"
  minSpeedBytesPerMillisecond :: real

record Request =
  Method :: string
  ReqHeader :: "(string \<times> string) list"

text \<open>
  An \<open>http.Response\<close>: \<open>Header r k\<close> is \<open>r.Header.Get(k)\<close>, the empty string when the
  header is absent; \<open>Body\<close> holds the bytes the body stream delivers.
\<close>

record Response =
  StatusCode :: int
  ContentLength :: int
  Header :: "string \<Rightarrow> string"
  Body :: string

text \<open>What one call of \<open>client.Do(req)\<close> returns: an error, or a response.\<close>

datatype round_trip = TransportError | Reply Response

text \<open>
  The struct \<open>HttpDownloader\<close>.  The network is behind \<open>client\<close>: \<open>client d req n\<close> is the
  outcome of the \<open>n\<close>-th call of \<open>client.Do(req)\<close> inside one retry loop, counted from 0.
\<close>

record HttpDownloader =
  Url :: string
  client :: "Request \<Rightarrow> nat \<Rightarrow> round_trip"

text \<open>
  The standard library functions the adapter calls: \<open>http.NewRequest\<close> (\<open>None\<close> when it
  returns an error), \<open>mime.ParseMediaType\<close> (the media type and its parameters, \<open>None\<close>
  on an error) and the bodies of the parts that \<open>multipart.NewReader(body, boundary)\<close>
  yields.
\<close>

record Stdlib =
  http_NewRequest :: "string \<Rightarrow> string \<Rightarrow> Request option"
  mime_ParseMediaType :: "string \<Rightarrow> (string \<times> (string \<Rightarrow> string)) option"
  multipart_NewReader :: "string \<Rightarrow> string \<Rightarrow> string list"

text \<open>
  \<open>retry.Do\<close> of github.com/avast/retry-go: the function is called until it returns nil,
  at most \<open>attempts\<close> times; between two calls the library sleeps as \<open>delayType\<close>,
  \<open>delay\<close> and \<open>maxDelay\<close> say (the sleep is not part of the model).  A call can also
  end the process.  The result is the number of calls made, the state the closure
  captured, and whether \<open>Do\<close> returned nil.
\<close>

datatype DelayTypeFunc = BackOffDelay | FixedDelay | RandomDelay

record retry_config =
  attempts :: nat
  delay :: int
  maxDelay :: int
  delayType :: DelayTypeFunc

datatype retryable = ReturnNil | ReturnErr | Exits abort

function retry_Do ::
  "(nat \<Rightarrow> 's \<Rightarrow> retryable \<times> 's) \<Rightarrow> retry_config \<Rightarrow> nat \<Rightarrow> 's \<Rightarrow> nat \<times> 's \<times> (abort + bool)" where
  "retry_Do f cfg n s =
     (if n < attempts cfg then
        (case f n s of
           (ReturnNil, s') \<Rightarrow> (Suc n, s', Inr True)
         | (Exits a, s') \<Rightarrow> (Suc n, s', Inl a)
         | (ReturnErr, s') \<Rightarrow>
             (if Suc n < attempts cfg then retry_Do f cfg (Suc n) s'
              else (Suc n, s', Inr False)))
      else (n, s, Inr False))"
  by pat_completeness auto
termination
  by (relation "measure (\<lambda>(f, cfg, n, s). attempts cfg - n)") auto

declare retry_Do.simps [simp del]

text \<open>Go's conversion \<open>uint(x)\<close> of an int, on a 64-bit platform.\<close>

definition uint :: "int \<Rightarrow> nat" where
  "uint x = nat (x mod 2 ^ 64)"

text \<open>
  The closure that \<open>retryHttpRequest\<close> hands to \<open>retry.Do\<close>.  It captures \<open>resp\<close> and
  \<open>throttled\<close>; the argument is what \<open>client.Do(req)\<close> returned in this call.
\<close>

definition retryHttpRequest_func ::
  "round_trip \<Rightarrow> Response option \<times> bool \<Rightarrow> retryable \<times> (Response option \<times> bool)" where
  "retryHttpRequest_func rt st =
     (case st of (resp, throttled) \<Rightarrow>
        (case rt of
           TransportError \<Rightarrow> (ReturnErr, (resp, throttled))
         | Reply curResp \<Rightarrow>
             if StatusCode curResp < 200 \<or> StatusCode curResp > 299 then
               (if StatusCode curResp = 404 then (Exits (OsExit ENOENT), (resp, throttled))
                else if StatusCode curResp = 429 \<or> StatusCode curResp = 503
                  then (ReturnErr, (resp, True))
                else (ReturnErr, (resp, throttled)))
             else (ReturnNil, (Some curResp, throttled))))"

text \<open>
  \<open>retryHttpRequest\<close>.  The first component counts the calls of \<open>client.Do\<close>: it tells
  a retry from a stop.  The second is the response returned, or how the process ended.
\<close>

definition retryHttpRequest_config :: "Options \<Rightarrow> retry_config" where
  "retryHttpRequest_config opts =
     \<lparr>attempts = uint (RetryCount opts), delay = RetryWait opts, maxDelay = MaxWait opts,
      delayType = BackOffDelay\<rparr>"

definition retryHttpRequest :: "Options \<Rightarrow> HttpDownloader \<Rightarrow> Request \<Rightarrow> nat \<times> (abort + Response)" where
  "retryHttpRequest opts d req =
     (case retry_Do (\<lambda>n. retryHttpRequest_func (client d req n)) (retryHttpRequest_config opts)
             0 (None, False) of
        (calls, (resp, throttled), Inl a) \<Rightarrow> (calls, Inl a)
      | (calls, (resp, throttled), Inr ok) \<Rightarrow>
          if \<not> ok then (calls, Inl (if throttled then OsExit EBUSY else LogFatal))
          else (case resp of Some r \<Rightarrow> (calls, Inr r) | None \<Rightarrow> (calls, Inl RuntimePanic)))"

definition generateRequest :: "Stdlib \<Rightarrow> Options \<Rightarrow> HttpDownloader \<Rightarrow> string \<Rightarrow> abort + Request" where
  "generateRequest lib opts d requestMethod =
     (case http_NewRequest lib requestMethod (Url d) of
        None \<Rightarrow> Inl LogFatal
      | Some req \<Rightarrow> Inr (req\<lparr>ReqHeader := ReqHeader req @ Headers opts\<rparr>))"

definition HttpDownloader_GetFileInfo ::
  "Stdlib \<Rightarrow> Options \<Rightarrow> HttpDownloader \<Rightarrow> abort + (int \<times> bool \<times> bool)" where
  "HttpDownloader_GetFileInfo lib opts d =
     (case generateRequest lib opts d ''HEAD'' of
        Inl a \<Rightarrow> Inl a
      | Inr req \<Rightarrow>
          (case snd (retryHttpRequest opts d req) of
             Inl a \<Rightarrow> Inl a
           | Inr resp \<Rightarrow>
               if ContentLength resp > ChunkSize opts
               then Inr (ContentLength resp, Header resp ''Accept-Ranges'' \<noteq> '''', False)
               else Inr (ContentLength resp, False, False)))"

definition HttpDownloader_Get :: "Stdlib \<Rightarrow> Options \<Rightarrow> HttpDownloader \<Rightarrow> abort + string" where
  "HttpDownloader_Get lib opts d =
     (case generateRequest lib opts d ''GET'' of
        Inl a \<Rightarrow> Inl a
      | Inr req \<Rightarrow>
          (case snd (retryHttpRequest opts d req) of
             Inl a \<Rightarrow> Inl a
           | Inr resp \<Rightarrow> Inr (Body resp)))"

definition HttpDownloader_GetRange ::
  "Stdlib \<Rightarrow> Options \<Rightarrow> HttpDownloader \<Rightarrow> int \<Rightarrow> int \<Rightarrow> abort + string" where
  "HttpDownloader_GetRange lib opts d start end =
     (case generateRequest lib opts d ''GET'' of
        Inl a \<Rightarrow> Inl a
      | Inr req \<Rightarrow>
          (case GenerateRangeString [[start, end]] of
             Inl a \<Rightarrow> Inl a
           | Inr rangeString \<Rightarrow>
               (case snd (retryHttpRequest opts d
                        (req\<lparr>ReqHeader := ReqHeader req @ [(''Range'', rangeString)]\<rparr>)) of
                  Inl a \<Rightarrow> Inl a
                | Inr resp \<Rightarrow> Inr (Body resp))))"

text \<open>
  \<open>GetRanges\<close> returns \<open>(*multipart.Reader, error)\<close>: \<open>Inr None\<close> is the error return,
  \<open>Inr (Some parts)\<close> the reader over the bodies of the parts.
\<close>

definition HttpDownloader_GetRanges ::
  "Stdlib \<Rightarrow> Options \<Rightarrow> HttpDownloader \<Rightarrow> int list list \<Rightarrow> abort + string list option" where
  "HttpDownloader_GetRanges lib opts d ranges =
     (case generateRequest lib opts d ''GET'' of
        Inl a \<Rightarrow> Inl a
      | Inr req \<Rightarrow>
          (case GenerateRangeString ranges of
             Inl a \<Rightarrow> Inl a
           | Inr rangeString \<Rightarrow>
               (case snd (retryHttpRequest opts d
                        (if length ranges \<noteq> 0
                         then req\<lparr>ReqHeader := ReqHeader req @ [(''Range'', rangeString)]\<rparr>
                         else req)) of
                  Inl a \<Rightarrow> Inl a
                | Inr resp \<Rightarrow>
                    (case mime_ParseMediaType lib (Header resp ''Content-Type'') of
                       None \<Rightarrow> Inr None
                     | Some (mediaType, params) \<Rightarrow>
                         if take 10 mediaType = ''multipart/''
                         then Inr (Some (multipart_NewReader lib (Body resp) (params ''boundary'')))
                         else Inr None))))"





section \<open>downloader.go: the source adapter\<close>

text \<open>
  The interface \<open>Downloader\<close>.  An \<open>io.ReadCloser\<close> is the string of bytes it still
  has to deliver; a \<open>*multipart.Reader\<close> is the list of the bodies of its parts, and
  \<open>Inr None\<close> is the error return of \<open>GetRanges\<close>.  Every call can end the process.
\<close>

record Downloader =
  GetFileInfo :: "abort + int \<times> bool \<times> bool"
  Get :: "abort + string"
  GetRange :: "int \<Rightarrow> int \<Rightarrow> abort + string"
  GetRanges :: "int list list \<Rightarrow> abort + string list option"

definition HttpDownloader_iface :: "Stdlib \<Rightarrow> Options \<Rightarrow> HttpDownloader \<Rightarrow> Downloader" where
  "HttpDownloader_iface lib opts d =
     \<lparr>GetFileInfo = HttpDownloader_GetFileInfo lib opts d,
      Get = HttpDownloader_Get lib opts d,
      GetRange = HttpDownloader_GetRange lib opts d,
      GetRanges = HttpDownloader_GetRanges lib opts d\<rparr>"

subsection \<open>downloader_test.go: the in-memory adapter of the tests\<close>

record TestDownloader =
  Data :: string
  RangeSupport :: bool
  MultipartSupport :: bool

definition TestDownloader_GetFileInfo :: "TestDownloader \<Rightarrow> int \<times> bool \<times> bool" where
  "TestDownloader_GetFileInfo t = (int (length (Data t)), RangeSupport t, MultipartSupport t)"

definition TestDownloader_Get :: "TestDownloader \<Rightarrow> string" where
  "TestDownloader_Get t = Data t"

definition TestDownloader_GetRange :: "TestDownloader \<Rightarrow> int \<Rightarrow> int \<Rightarrow> abort + string" where
  "TestDownloader_GetRange t start end = slice (Data t) start end"

text \<open>
  \<open>GetRanges\<close> writes one part per range, \<open>Data[r[0]:r[1]]\<close>, into a multipart body and
  returns a reader over it: the parts read back are these slices.
\<close>

fun TestDownloader_GetRanges_loop :: "TestDownloader \<Rightarrow> int list list \<Rightarrow> abort + string list" where
  "TestDownloader_GetRanges_loop t [] = Inr []"
| "TestDownloader_GetRanges_loop t (r # ranges) =
     (case index r 0 of
        Inl a \<Rightarrow> Inl a
      | Inr lo \<Rightarrow>
         (case index r 1 of
            Inl a \<Rightarrow> Inl a
          | Inr hi \<Rightarrow>
             (case slice (Data t) lo hi of
                Inl a \<Rightarrow> Inl a
              | Inr part \<Rightarrow>
                 (case TestDownloader_GetRanges_loop t ranges of
                    Inl a \<Rightarrow> Inl a
                  | Inr parts \<Rightarrow> Inr (part # parts)))))"

definition TestDownloader_GetRanges :: "TestDownloader \<Rightarrow> int list list \<Rightarrow> abort + string list option" where
  "TestDownloader_GetRanges t ranges =
     (case TestDownloader_GetRanges_loop t ranges of
        Inl a \<Rightarrow> Inl a
      | Inr parts \<Rightarrow> Inr (Some parts))"

definition TestDownloader_iface :: "TestDownloader \<Rightarrow> Downloader" where
  "TestDownloader_iface t =
     \<lparr>GetFileInfo = Inr (TestDownloader_GetFileInfo t),
      Get = Inr (TestDownloader_Get t),
      GetRange = TestDownloader_GetRange t,
      GetRanges = TestDownloader_GetRanges t\<rparr>"

section \<open>The chunk reader\<close>

text \<open>
  Modelled from the spec: the type \<open>Reader\<close> and its operations \<open>NewReader\<close>,
  \<open>RequestChunk\<close>, \<open>Read\<close>, \<open>Reset\<close>, \<open>AdvanceNextChunk\<close>, \<open>UseMultipart\<close> and \<open>Close\<close>,
  which \<open>writePartial\<close> calls and whose source file is not among the sources.  The
  specification (section 4.3) constructs the reader from the object's size, the worker's
  start offset, the chunk size, the number of workers, multipart support and the adapter.
  \<open>body\<close> is the underlying stream of the current chunk (\<open>None\<close> when there is none);
  \<open>parts\<close> holds the parts that the open multipart response still has to deliver
  (\<open>None\<close> when no multipart response is open).
\<close>

record Reader =
  Size :: int
  CurChunkStart :: int
  ChunkLen :: int
  NumWorkers :: int
  Multipart :: bool
  adapter :: Downloader
  body :: "string option"
  parts :: "string list option"

definition NewReader :: "int \<Rightarrow> int \<Rightarrow> int \<Rightarrow> int \<Rightarrow> bool \<Rightarrow> Downloader \<Rightarrow> Reader" where
  "NewReader sz start chunkSize numWorkers supportsMultipart downloader =
     \<lparr>Size = sz, CurChunkStart = start, ChunkLen = chunkSize, NumWorkers = numWorkers,
      Multipart = supportsMultipart, adapter = downloader, body = None, parts = None\<rparr>"

text \<open>
  Modelled from the spec: a chunk is the range \<open>[start, min(start+C, S))\<close>; a worker's
  stripe is every \<open>N\<close>-th chunk until the offset meets or exceeds \<open>S\<close>, so from the chunk
  at \<open>start\<close> on it has \<open>\<lceil>(S - start)/(N\<sqdot>C)\<rceil>\<close> chunks.  \<open>stripe r from\<close> lists the ranges of
  the rest of the stripe, the current chunk cut down to begin at \<open>from\<close>.
\<close>

definition chunkEnd :: "Reader \<Rightarrow> int \<Rightarrow> int" where
  "chunkEnd r start = min (start + ChunkLen r) (Size r)"

definition stripeCount :: "Reader \<Rightarrow> nat" where
  "stripeCount r =
     (if NumWorkers r * ChunkLen r \<le> 0 then 0
      else nat ((Size r - CurChunkStart r + NumWorkers r * ChunkLen r - 1)
                 div (NumWorkers r * ChunkLen r)))"

definition stripe :: "Reader \<Rightarrow> int \<Rightarrow> int list list" where
  "stripe r from =
     map (\<lambda>k. let start = CurChunkStart r + int k * (NumWorkers r * ChunkLen r)
               in [if k = 0 then from else start, chunkEnd r start])
         [0 ..< stripeCount r]"

text \<open>
  Modelled from the spec: \<open>reset(from_offset)\<close> aborts the current stream and re-requests
  starting at \<open>from_offset\<close>: a new \<open>get_range\<close> in single-range mode, the entire
  remaining stripe in multipart mode.  When \<open>get_multipart\<close> returns its error, or a
  response without parts, the reader is left without a stream (the specification does
  not say more) and \<open>Read\<close> reports an error.
\<close>

definition Reset :: "Reader \<Rightarrow> int \<Rightarrow> abort + Reader" where
  "Reset r from =
     (if Multipart r then
        (case GetRanges (adapter r) (stripe r from) of
           Inl a \<Rightarrow> Inl a
         | Inr None \<Rightarrow> Inr (r\<lparr>body := None, parts := None\<rparr>)
         | Inr (Some []) \<Rightarrow> Inr (r\<lparr>body := None, parts := None\<rparr>)
         | Inr (Some (p # ps)) \<Rightarrow> Inr (r\<lparr>body := Some p, parts := Some ps\<rparr>))
      else
        (case GetRange (adapter r) from (chunkEnd r (CurChunkStart r)) of
           Inl a \<Rightarrow> Inl a
         | Inr s \<Rightarrow> Inr (r\<lparr>body := Some s\<rparr>)))"

text \<open>
  Modelled from the spec: \<open>request_chunk()\<close> ensures that a byte stream exists, positioned
  at the start of the current chunk: nothing to do when there is one; the next part of the
  open multipart response; otherwise a request from the start of the chunk.
\<close>

definition RequestChunk :: "Reader \<Rightarrow> abort + Reader" where
  "RequestChunk r =
     (case body r of
        Some s \<Rightarrow> Inr r
      | None \<Rightarrow>
         (case (Multipart r, parts r) of
            (True, Some (p # ps)) \<Rightarrow> Inr (r\<lparr>body := Some p, parts := Some ps\<rparr>)
          | _ \<Rightarrow> Reset r (CurChunkStart r)))"

text \<open>
  Modelled from the spec: \<open>read(buf)\<close> forwards to the current underlying stream.  The
  stream behaves as \<open>strings.Reader\<close> does: as many bytes as the buffer of length \<open>n\<close>
  takes, and the error \<open>io.EOF\<close> (here \<open>True\<close>) once nothing is left.
\<close>

definition Read :: "Reader \<Rightarrow> nat \<Rightarrow> Reader \<times> string \<times> bool" where
  "Read r n =
     (case body r of
        None \<Rightarrow> (r, [], True)
      | Some s \<Rightarrow>
          if s = [] then (r, [], True)
          else (r\<lparr>body := Some (drop n s)\<rparr>, take n s, False))"

text \<open>
  Modelled from the spec: \<open>advance_next_chunk()\<close> moves \<open>cur_chunk_start\<close> forward by
  \<open>num_workers \<sqdot> chunk_size\<close>; \<open>close()\<close> ends the stream of the current chunk (the
  multipart response stays open for the next part).
\<close>

definition AdvanceNextChunk :: "Reader \<Rightarrow> Reader" where
  "AdvanceNextChunk r =
     r\<lparr>CurChunkStart := int64 (CurChunkStart r + int64 (NumWorkers r * ChunkLen r))\<rparr>"

definition UseMultipart :: "Reader \<Rightarrow> bool" where
  "UseMultipart r = Multipart r"

definition Close :: "Reader \<Rightarrow> Reader" where
  "Close r = r\<lparr>body := None\<rparr>"

section \<open>downloader.go: the worker\<close>

text \<open>
  The two readings of the clock in one pass of the reader activity, in milliseconds as
  \<open>time.Since(...).Milliseconds()\<close> returns them: the time since the chunk was started and
  the time since the current attempt was started.
\<close>

record Elapsed =
  chunkElapsedMilli :: int
  attemptElapsedMilli :: int

text \<open>
  The speed test of the source,
  \<open>attemptElapsedMilli > float64(opts.MinSpeedWait)*1000 &&
    float64(totalRead)/chunkElapsedMilli < minSpeedBytesPerMillisecond\<close>.
  The float64 values are taken as the reals they stand for.  A float64 division by zero
  yields an infinity or NaN, neither of which is below the threshold, whereas division by
  zero is 0 in HOL: hence the test that the divisor is not 0.
\<close>

definition chunkTooSlowSoFar :: "Options \<Rightarrow> Elapsed \<Rightarrow> int \<Rightarrow> bool" where
  "chunkTooSlowSoFar opts e totalRead =
     (real_of_int (attemptElapsedMilli e) > real_of_int (MinSpeedWait opts) * 1000
      \<and> chunkElapsedMilli e \<noteq> 0
      \<and> real_of_int totalRead / real_of_int (chunkElapsedMilli e) < minSpeedBytesPerMillisecond opts)"

text \<open>
  The variables of \<open>writePartial\<close> that its reader activity works on; \<open>passes\<close> counts the
  passes of the reading loop, to look the clock up.
\<close>

record Worker =
  reader :: Reader
  attemptNumber :: int
  buf :: string
  totalRead :: int
  passes :: nat

datatype pass = Finished Worker | Again Worker | Exit abort

text \<open>
  One pass of the \<open>for\<close> loop of the reader activity: read into \<open>buf[totalRead:]\<close>; leave
  the loop when the chunk is finished; otherwise, when the chunk is too slow so far or the
  read returned an error, give up with EIO or reset the reader and try again.
\<close>

definition readPass :: "Options \<Rightarrow> int \<Rightarrow> int \<Rightarrow> Elapsed \<Rightarrow> Worker \<Rightarrow> pass" where
  "readPass opts sz chunkSize e w =
     (if totalRead w < 0 \<or> int (length (buf w)) < totalRead w then Exit RuntimePanic
      else
        (case Read (reader w) (length (buf w) - nat (totalRead w)) of
           (r, bytes, err) \<Rightarrow>
             let w1 = w\<lparr>reader := r,
                        buf := take (nat (totalRead w)) (buf w) @ bytes
                                 @ drop (nat (totalRead w) + length bytes) (buf w),
                        totalRead := int64 (totalRead w + int (length bytes))\<rparr>
             in
               if ChunkFinished (CurChunkStart r) (totalRead w1) sz chunkSize
               then Finished (w1\<lparr>reader := Close r\<rparr>)
               else if chunkTooSlowSoFar opts e (totalRead w1) \<or> err then
                 (if attemptNumber w1 > RetryCount opts then Exit (OsExit EIO)
                  else
                    (case Reset r (int64 (CurChunkStart r + totalRead w1)) of
                       Inl a \<Rightarrow> Exit a
                     | Inr r1 \<Rightarrow>
                        (case RequestChunk r1 of
                           Inl a \<Rightarrow> Exit a
                         | Inr r2 \<Rightarrow>
                             Again (w1\<lparr>reader := r2,
                                        attemptNumber := int64 (attemptNumber w1 + 1)\<rparr>))))
               else Again w1))"

text \<open>The loop itself; it need not end, and then has no value.\<close>

partial_function (option) readerLoop ::
  "Options \<Rightarrow> (nat \<Rightarrow> Elapsed) \<Rightarrow> int \<Rightarrow> int \<Rightarrow> Worker \<Rightarrow> (abort + Worker) option" where
  "readerLoop opts clock sz chunkSize w =
     (case readPass opts sz chunkSize (clock (passes w)) w of
        Finished w' \<Rightarrow> Some (Inr w')
      | Exit a \<Rightarrow> Some (Inl a)
      | Again w' \<Rightarrow> readerLoop opts clock sz chunkSize (w'\<lparr>passes := Suc (passes w')\<rparr>))"

declare readerLoop.simps [code]

text \<open>
  What a worker does to the pipe in one turn, that is between receiving the token from
  \<open>curChan\<close> and giving it up: the writes, then either \<open>nextChan <- true\<close> or
  \<open>writer.Close()\<close>.
\<close>

datatype handoff = Send | CloseWriter

record Turn =
  writes :: "string list"
  hand :: handoff

text \<open>
  The writer activity of one chunk, run after the reader activity has read the whole
  chunk (one of the schedules of the two; the bytes written are the same in all): the loop
  is not entered when the chunk counts as finished with nothing written; otherwise the
  first pass copies \<open>buf[0:totalRead]\<close> to the pipe in one call and the loop ends.
\<close>

definition writerActivity :: "int \<Rightarrow> int \<Rightarrow> Worker \<Rightarrow> abort + string list" where
  "writerActivity sz chunkSize w =
     (if ChunkFinished (CurChunkStart (reader w)) 0 sz chunkSize then Inr []
      else (case slice (buf w) 0 (totalRead w) of Inl a \<Rightarrow> Inl a | Inr bytes \<Rightarrow> Inr [bytes]))"

text \<open>
  The body of the loop of \<open>writePartial\<close>, for the chunk at \<open>reader.CurChunkStart\<close>:
  request the chunk, run the reader activity, take the turn at the pipe (the writes, then
  the token for the next worker, or the end of the stream when no chunk follows), and
  advance the reader to the worker's next chunk.  There is no value when the reader
  activity does not end.
\<close>

definition writePartial_chunk ::
  "Options \<Rightarrow> (nat \<Rightarrow> Elapsed) \<Rightarrow> int \<Rightarrow> int \<Rightarrow> Worker \<Rightarrow> (abort + Turn \<times> Worker) option" where
  "writePartial_chunk opts clock sz chunkSize w =
     (case RequestChunk (reader w) of
        Inl a \<Rightarrow> Some (Inl a)
      | Inr r \<Rightarrow>
         (case readerLoop opts clock sz chunkSize
                 (w\<lparr>reader := r,
                    attemptNumber := (if \<not> UseMultipart r then 1 else attemptNumber w),
                    totalRead := 0\<rparr>) of
            None \<Rightarrow> None
          | Some (Inl a) \<Rightarrow> Some (Inl a)
          | Some (Inr w1) \<Rightarrow>
             (case writerActivity sz chunkSize w1 of
                Inl a \<Rightarrow> Some (Inl a)
              | Inr ws \<Rightarrow>
                  Some (Inr (\<lparr>writes = ws,
                              hand = (if int64 (CurChunkStart (reader w1) + chunkSize) < sz
                                      then Send else CloseWriter)\<rparr>,
                             w1\<lparr>reader := AdvanceNextChunk (reader w1)\<rparr>)))))"

text \<open>
  The loop of \<open>writePartial\<close> over the chunks of the worker's stripe.  The result is the
  list of the worker's turns and how the worker ended: \<open>None\<close> for a return, \<open>Some a\<close>
  when it ended the process.
\<close>

partial_function (option) writePartial_loop ::
  "Options \<Rightarrow> (nat \<Rightarrow> Elapsed) \<Rightarrow> int \<Rightarrow> int \<Rightarrow> Worker \<Rightarrow> Turn list \<Rightarrow> (Turn list \<times> abort option) option" where
  "writePartial_loop opts clock sz chunkSize w acc =
     (if CurChunkStart (reader w) < sz then
        (case writePartial_chunk opts clock sz chunkSize w of
           None \<Rightarrow> None
         | Some (Inl a) \<Rightarrow> Some (acc, Some a)
         | Some (Inr (turn, w')) \<Rightarrow> writePartial_loop opts clock sz chunkSize w' (acc @ [turn]))
      else Some (acc, None))"

declare writePartial_loop.simps [code]

text \<open>
  The arguments of one \<open>go writePartial(...)\<close>; the channels are named by their index in
  \<open>chans\<close>, and the pipe writer is the one pipe.
\<close>

record Goroutine =
  arg_downloader :: Downloader
  arg_supportsMultipart :: bool
  arg_size :: int
  arg_start :: int
  arg_chunkSize :: int
  arg_numWorkers :: int
  arg_curChan :: nat
  arg_nextChan :: nat

text \<open>
  \<open>writePartial\<close>: \<open>start / chunkSize\<close> panics when the chunk size is 0, and
  \<open>make([]byte, chunkSize)\<close> when it is negative.
\<close>

definition writePartial ::
  "Options \<Rightarrow> (nat \<Rightarrow> Elapsed) \<Rightarrow> Goroutine \<Rightarrow> (Turn list \<times> abort option) option" where
  "writePartial opts clock g =
     (if arg_chunkSize g = 0 then Some ([], Some RuntimePanic)
      else if arg_chunkSize g < 0 then Some ([], Some RuntimePanic)
      else
        writePartial_loop opts clock (arg_size g) (arg_chunkSize g)
          \<lparr>reader = NewReader (arg_size g) (arg_start g) (arg_chunkSize g) (arg_numWorkers g)
                      (arg_supportsMultipart g) (arg_downloader g),
           attemptNumber = 1,
           buf = replicate (nat (arg_chunkSize g)) (CHR 0x00),
           totalRead = 0,
           passes = 0\<rparr> [])"

section \<open>downloader.go: the engine\<close>

text \<open>
  The \<open>io.Reader\<close> that \<open>GetDownloadStream\<close> returns: the adapter's own stream of the
  whole object, or the read side of the pipe, together with the goroutines launched to
  write to it.  With no worker to launch, \<open>chans[0] <- true\<close> panics.
\<close>

datatype Stream = Direct string | Pipe "Goroutine list"

definition GetDownloadStream :: "Downloader \<Rightarrow> int \<Rightarrow> int \<Rightarrow> abort + Stream" where
  "GetDownloadStream downloader chunkSize numWorkers =
     (case GetFileInfo downloader of
        Inl a \<Rightarrow> Inl a
      | Inr (sz, supportsRange, supportsMultipart) \<Rightarrow>
          if \<not> supportsRange \<or> sz < chunkSize then
            (case Get downloader of Inl a \<Rightarrow> Inl a | Inr s \<Rightarrow> Inr (Direct s))
          else if numWorkers \<le> 0 then Inl RuntimePanic
          else
            Inr (Pipe (map (\<lambda>i.
                   \<lparr>arg_downloader = downloader,
                    arg_supportsMultipart = supportsMultipart,
                    arg_size = sz,
                    arg_start = int64 (int i * chunkSize),
                    arg_chunkSize = chunkSize,
                    arg_numWorkers = numWorkers,
                    arg_curChan = i,
                    arg_nextChan = (i + 1) mod nat numWorkers\<rparr>) [0 ..< nat numWorkers])))"

text \<open>
  The ring of tokens.  There is one token: it is put into \<open>chans[0]\<close>, and a worker
  sends one on only after it has received one.  So the pipe is written by the worker whose
  channel holds the token, turn after turn: \<open>cur\<close> is that channel, \<open>ws ! cur\<close> holds the
  channel this worker sends to, its turns still to come and how it ends.  A worker that
  has returned never takes the token, and the consumer waits for ever; a worker that ended
  the process ends the read; after \<open>writer.Close()\<close> the consumer has read everything.
\<close>

function tokenRing :: "(nat \<times> Turn list \<times> abort option) list \<Rightarrow> nat \<Rightarrow> string \<Rightarrow> abort + string" where
  "tokenRing ws cur pipe =
     (if cur < length ws then
        (case ws ! cur of
           (next, [], None) \<Rightarrow> Inl Blocked
         | (next, [], Some a) \<Rightarrow> Inl a
         | (next, t # ts, st) \<Rightarrow>
             (case hand t of
                CloseWriter \<Rightarrow> Inr (pipe @ concat (writes t))
              | Send \<Rightarrow> tokenRing (ws[cur := (next, ts, st)]) next (pipe @ concat (writes t))))
      else Inl Blocked)"
  by pat_completeness auto
termination
proof (relation "measure (\<lambda>(ws, cur, pipe). sum_list (map (\<lambda>w. length (fst (snd w))) ws))",
    goal_cases)
  case 1
  show ?case by simp
next
  case (2 ws cur pipe x1 x2 x21 x22 t ts)
  define ls where "ls = map (\<lambda>w. length (fst (snd w))) ws"
  from 2 have "ws ! cur = (x1, t # ts, x22)" by simp
  with 2 have c: "cur < length ls" and e: "ls ! cur = Suc (length ts)"
    by (simp_all add: ls_def)
  from c have "ls ! cur \<in> set ls" by simp
  then have "ls ! cur \<le> sum_list ls" by (simp add: member_le_sum_list)
  with c e have "sum_list (ls[cur := length ts]) < sum_list ls"
    by (simp add: sum_list_update)
  then show ?case
    by (simp add: map_update ls_def)
qed

declare tokenRing.simps [simp del]

text \<open>
  Reading the stream to its end: the bytes read, or how the process ended (\<open>Blocked\<close>:
  the read never returns because nobody will write or close).  There is no value when a
  worker's loop does not end.  \<open>clock i\<close> is the clock of the worker on \<open>chans[i]\<close>.
\<close>

definition ReadAll :: "Options \<Rightarrow> (nat \<Rightarrow> nat \<Rightarrow> Elapsed) \<Rightarrow> Stream \<Rightarrow> (abort + string) option" where
  "ReadAll opts clock s =
     (case s of
        Direct bytes \<Rightarrow> Some (Inr bytes)
      | Pipe gs \<Rightarrow>
         (case those (map (\<lambda>g. writePartial opts (clock (arg_curChan g)) g) gs) of
            None \<Rightarrow> None
          | Some ws \<Rightarrow> Some (tokenRing (zip (map arg_nextChan gs) ws) 0 [])))"

text \<open>The test's \<open>io.ReadAll(GetDownloadStream(downloader, chunkSize, numWorkers))\<close>.\<close>

definition download ::
  "Options \<Rightarrow> (nat \<Rightarrow> nat \<Rightarrow> Elapsed) \<Rightarrow> Downloader \<Rightarrow> int \<Rightarrow> int \<Rightarrow> (abort + string) option" where
  "download opts clock downloader chunkSize numWorkers =
     (case GetDownloadStream downloader chunkSize numWorkers of
        Inl a \<Rightarrow> Some (Inl a)
      | Inr s \<Rightarrow> ReadAll opts clock s)"

section \<open>Chunks and stripes of an object\<close>

text \<open>
  The data model of the specification, for an object \<open>D\<close> of size \<open>S\<close>, chunk size \<open>C\<close>
  and \<open>N\<close> workers: the chunk at offset \<open>start\<close> is the byte range
  \<open>[start, min(start+C, S))\<close>; a stripe is the sequence of the offsets \<open>start\<close>,
  \<open>start + N\<sqdot>C\<close>, \<open>start + 2\<sqdot>N\<sqdot>C\<close>, ... below \<open>S\<close>.  \<open>stripeTurns\<close> lists what the
  specification expects of the worker that owns the stripe: one turn per chunk, writing
  the bytes of the chunk, and closing the pipe instead of passing the token exactly when
  no chunk follows in the object.
\<close>

definition chunkBytes :: "string \<Rightarrow> int \<Rightarrow> int \<Rightarrow> string" where
  "chunkBytes D C start = take (nat C) (drop (nat start) D)"

function stripeOffsets :: "int \<Rightarrow> int \<Rightarrow> int \<Rightarrow> int list" where
  "stripeOffsets S step start =
     (if 0 \<le> start \<and> start < S \<and> 0 < step
      then start # stripeOffsets S step (start + step) else [])"
  by pat_completeness auto
termination
  by (relation "measure (\<lambda>(S, step, start). nat (S - start))") auto

declare stripeOffsets.simps [simp del]

definition expectedTurn :: "string \<Rightarrow> int \<Rightarrow> int \<Rightarrow> Turn" where
  "expectedTurn D C start =
     \<lparr>writes = [chunkBytes D C start],
      hand = (if start + C < int (length D) then Send else CloseWriter)\<rparr>"

definition stripeTurns :: "string \<Rightarrow> int \<Rightarrow> int \<Rightarrow> int \<Rightarrow> Turn list" where
  "stripeTurns D C N start = map (expectedTurn D C) (stripeOffsets (int (length D)) (N * C) start)"

text \<open>
  The states of a chunk reader over the test adapter \<open>t\<close> between two chunks (\<open>idle\<close>, at
  the chunk at \<open>start\<close>) and after \<open>RequestChunk\<close> (\<open>loaded\<close>): in multipart mode the
  open response holds the chunks of the rest of the stripe.
\<close>

definition attached :: "TestDownloader \<Rightarrow> int \<Rightarrow> int \<Rightarrow> int \<Rightarrow> Reader \<Rightarrow> bool" where
  "attached t C N start r =
     (Size r = int (length (Data t)) \<and> ChunkLen r = C \<and> NumWorkers r = N
      \<and> adapter r = TestDownloader_iface t \<and> CurChunkStart r = start)"

definition idle :: "TestDownloader \<Rightarrow> int \<Rightarrow> int \<Rightarrow> int \<Rightarrow> Reader \<Rightarrow> bool" where
  "idle t C N start r =
     (attached t C N start r \<and> body r = None
      \<and> (Multipart r \<longrightarrow>
            parts r = None
            \<or> parts r = Some (map (chunkBytes (Data t) C)
                                (stripeOffsets (int (length (Data t))) (N * C) start))))"

definition loaded :: "TestDownloader \<Rightarrow> int \<Rightarrow> int \<Rightarrow> int \<Rightarrow> Reader \<Rightarrow> bool" where
  "loaded t C N start r =
     (attached t C N start r \<and> body r = Some (chunkBytes (Data t) C start)
      \<and> (Multipart r \<longrightarrow>
            parts r = Some (map (chunkBytes (Data t) C)
                              (stripeOffsets (int (length (Data t))) (N * C) (start + N * C)))))"

text \<open>
  The state of the token ring when the chunk with index \<open>k\<close> is the next to reach the
  pipe: each of the \<open>N\<close> workers still has the turns of its stripe from its first chunk
  \<open>c \<ge> k\<close> on.
\<close>

definition ringAt :: "string \<Rightarrow> int \<Rightarrow> nat \<Rightarrow> nat \<Rightarrow> (nat \<times> Turn list \<times> abort option) list \<Rightarrow> bool" where
  "ringAt D C N k ws =
     (length ws = N \<and>
      (\<forall>w < N. \<exists>c. ws ! w = ((w + 1) mod N, stripeTurns D C (int N) (int c * C), None)
                     \<and> c mod N = w \<and> k \<le> c \<and> c < k + N))"

section \<open>The tar extractor\<close>

text \<open>
  The flags the extractor reads, a tar header as far as the extractor looks at it
  (\<open>Mode\<close> stands for \<open>header.FileInfo().Mode()\<close>), and what \<open>tarReader.Next()\<close> returns:
  an error, or a header, with the body that \<open>io.ReadAll(tarReader)\<close> then yields (\<open>None\<close>
  when that read fails).  The end of the list is \<open>io.EOF\<close>.
\<close>

record TarFlags =
  writeWorkers :: int
  stripComponents :: int
  outputDir :: string
  overwrite :: bool
  ignoreNodeFiles :: bool

datatype typeflag = TypeDir | TypeReg | TypeLink | TypeSymlink | TypeOther

record Header =
  Name :: string
  Linkname :: string
  Typeflag :: typeflag
  Uid :: int
  Gid :: int
  Mode :: int

datatype tar_next = NextErr | Next Header "string option"

text \<open>
  The operating system, as the extractor meets it: the calls it makes, the error a call
  returns (\<open>Ok\<close> for nil, \<open>NotExist\<close> for an error that \<open>os.IsNotExist\<close> accepts, \<open>Failed\<close>
  for any other), and an environment that answers a call given the calls made before.
  A trace lists the calls made with their results.
\<close>

datatype syscall =
    Stat string | Lstat string | MkdirAll string int | Chmod string int
  | Chown string int int | Lchown string int int | OpenFile string int | Copy string string
  | FileClose string | Remove string | Symlink string string | Link string string

datatype errno = Ok | NotExist | Failed

type_synonym trace = "(syscall \<times> errno) list"

type_synonym OS = "syscall list \<Rightarrow> syscall \<Rightarrow> errno"

definition sys :: "OS \<Rightarrow> trace \<Rightarrow> syscall \<Rightarrow> errno \<times> trace" where
  "sys os tr c = (let e = os (map fst tr) c in (e, tr @ [(c, e)]))"

text \<open>
  \<open>filepath.Join\<close> and the directory part of \<open>filepath.Split\<close> are taken from the
  standard library as they are; \<open>strings.Split(s, "/")\<close> is written out.
\<close>

record PathLib =
  filepath_Join :: "string list \<Rightarrow> string"
  filepath_Dir :: "string \<Rightarrow> string"

fun splitSlash :: "string \<Rightarrow> string list" where
  "splitSlash [] = [[]]"
| "splitSlash (c # cs) =
     (if c = CHR ''/'' then [] # splitSlash cs
      else (case splitSlash cs of [] \<Rightarrow> [[c]] | x # xs \<Rightarrow> (c # x) # xs))"

text \<open>
  \<open>filepath.Join(strings.Split(name, "/")[*stripComponents:]...)\<close>; the slice expression
  panics when there are fewer components than are to be stripped.
\<close>

definition stripped :: "PathLib \<Rightarrow> TarFlags \<Rightarrow> string \<Rightarrow> abort + string" where
  "stripped lib fl name =
     (if stripComponents fl < 0 \<or> int (length (splitSlash name)) < stripComponents fl
      then Inl RuntimePanic
      else Inr (filepath_Join lib (drop (nat (stripComponents fl)) (splitSlash name))))"

text \<open>
  \<open>writeFileAsync\<close>, run to its end: the deferred calls run last, in the reverse order of
  their \<open>defer\<close> statements (close, chown, chmod; then the token goes back and the wait
  group is told), and not at all after \<open>log.Fatal\<close>.
\<close>

definition writeFileAsync :: "TarFlags \<Rightarrow> OS \<Rightarrow> trace \<Rightarrow> string \<Rightarrow> string \<Rightarrow> Header \<Rightarrow> trace \<times> abort option" where
  "writeFileAsync fl os tr filename bytes header =
     (let tr1 = (if overwrite fl then
                   (case sys os tr (Stat filename) of
                      (e, t) \<Rightarrow> if e = Ok then snd (sys os t (Remove filename)) else t)
                 else tr)
      in case sys os tr1 (OpenFile filename (Mode header)) of
           (e, tr2) \<Rightarrow>
             if e \<noteq> Ok then (tr2, Some LogFatal)
             else
               (case sys os tr2 (Copy filename bytes) of
                  (e, tr3) \<Rightarrow>
                    if e \<noteq> Ok then (tr3, Some LogFatal)
                    else
                      let tr4 = snd (sys os tr3 (FileClose filename));
                          tr5 = snd (sys os tr4 (Chown filename (Uid header) (Gid header)));
                          tr6 = snd (sys os tr5 (Chmod filename (Mode header)))
                      in (tr6, None)))"

text \<open>\<open>hardLink\<close>, once \<open>wg.Wait()\<close> has returned.\<close>

definition hardLink :: "TarFlags \<Rightarrow> OS \<Rightarrow> trace \<Rightarrow> string \<Rightarrow> string \<Rightarrow> Header \<Rightarrow> trace \<times> abort option" where
  "hardLink fl os tr newPath path header =
     (let tr1 = (if overwrite fl then
                   (case sys os tr (Stat path) of
                      (e, t) \<Rightarrow> if e = Ok then snd (sys os t (Remove path)) else t)
                 else tr)
      in case sys os tr1 (Link newPath path) of
           (e, tr2) \<Rightarrow>
             if e \<noteq> Ok then (tr2, Some LogFatal)
             else (snd (sys os tr2 (Chown path (Uid header) (Gid header))), None))"

text \<open>
  The body of the loop of \<open>ExtractTar\<close> for one header (the mode 0755 of the parent
  directory is 493).  The writer tasks are run where
  they are dispatched: a fatal error in a task ends the process whenever the task runs,
  and the loop waits for all tasks before \<open>ExtractTar\<close> returns.  With no writer token at
  all (\<open>--write-workers 0\<close>) the first regular file blocks for ever.
\<close>

definition extractEntry ::
  "PathLib \<Rightarrow> TarFlags \<Rightarrow> OS \<Rightarrow> trace \<Rightarrow> Header \<Rightarrow> string option \<Rightarrow> trace \<times> abort option" where
  "extractEntry lib fl os tr header contents =
     (case (if stripComponents fl \<noteq> 0 then stripped lib fl (Name header) else Inr (Name header)) of
        Inl a \<Rightarrow> (tr, Some a)
      | Inr name \<Rightarrow>
         (case (if stripComponents fl \<noteq> 0 \<and> Linkname header \<noteq> ''''
                then stripped lib fl (Linkname header) else Inr (Linkname header)) of
            Inl a \<Rightarrow> (tr, Some a)
          | Inr linkName \<Rightarrow>
             if name = '''' then (tr, None)
             else
               let path = filepath_Join lib [outputDir fl, name];
                   pathDir = filepath_Dir lib path
               in
                 (case sys os tr (Stat pathDir) of
                    (e, tr1) \<Rightarrow>
                      (case (if e = NotExist then sys os tr1 (MkdirAll pathDir 493) else (Ok, tr1)) of
                         (e, tr2) \<Rightarrow>
                           if e \<noteq> Ok then (tr2, Some LogFatal)
                           else
                             (case Typeflag header of
                                TypeDir \<Rightarrow>
                                  (case sys os tr2 (MkdirAll path (Mode header)) of
                                     (e, tr3) \<Rightarrow>
                                       if e \<noteq> Ok then (tr3, Some LogFatal)
                                       else
                                         let tr4 = snd (sys os tr3 (Chmod path (Mode header)));
                                             tr5 = snd (sys os tr4 (Chown path (Uid header) (Gid header)))
                                         in (tr5, None))
                              | TypeReg \<Rightarrow>
                                  (case contents of
                                     None \<Rightarrow> (tr2, Some LogFatal)
                                   | Some bytes \<Rightarrow>
                                       if writeWorkers fl = 0 then (tr2, Some Blocked)
                                       else writeFileAsync fl os tr2 path bytes header)
                              | TypeLink \<Rightarrow>
                                  hardLink fl os tr2 (filepath_Join lib [outputDir fl, linkName]) path header
                              | TypeSymlink \<Rightarrow>
                                  (let tr3 = (if overwrite fl then
                                                (case sys os tr2 (Lstat path) of
                                                   (e, t) \<Rightarrow>
                                                     if e = Ok then snd (sys os t (Remove path)) else t)
                                              else tr2)
                                   in case sys os tr3 (Symlink linkName path) of
                                        (e, tr4) \<Rightarrow>
                                          if e \<noteq> Ok then (tr4, Some LogFatal)
                                          else (snd (sys os tr4 (Lchown path (Uid header) (Gid header))), None))
                              | TypeOther \<Rightarrow>
                                  if ignoreNodeFiles fl then (tr2, None) else (tr2, Some LogFatal))))))"

text \<open>
  \<open>ExtractTar\<close>: \<open>make(chan bool, *writeWorkers)\<close> panics for a negative size; then one
  pass of the loop per header until \<open>io.EOF\<close>, which ends it, or another error of
  \<open>Next()\<close>, which is fatal.  The result is the trace of the calls made and how the
  process ended, \<open>None\<close> when \<open>ExtractTar\<close> returned.
\<close>

fun ExtractTar_loop ::
  "PathLib \<Rightarrow> TarFlags \<Rightarrow> OS \<Rightarrow> tar_next list \<Rightarrow> trace \<Rightarrow> trace \<times> abort option" where
  "ExtractTar_loop lib fl os [] tr = (tr, None)"
| "ExtractTar_loop lib fl os (NextErr # rest) tr = (tr, Some LogFatal)"
| "ExtractTar_loop lib fl os (Next header contents # rest) tr =
     (case extractEntry lib fl os tr header contents of
        (tr', Some a) \<Rightarrow> (tr', Some a)
      | (tr', None) \<Rightarrow> ExtractTar_loop lib fl os rest tr')"

definition ExtractTar :: "PathLib \<Rightarrow> TarFlags \<Rightarrow> OS \<Rightarrow> tar_next list \<Rightarrow> trace \<times> abort option" where
  "ExtractTar lib fl os archive =
     (if writeWorkers fl < 0 then ([], Some RuntimePanic)
      else ExtractTar_loop lib fl os archive [])"

text \<open>
  The classes of calls the error handling distinguishes: those whose error the source
  answers with \<open>log.Fatal\<close>, and those that set owner or mode.
\<close>

fun fatal_call :: "syscall \<Rightarrow> bool" where
  "fatal_call (MkdirAll p m) = True"
| "fatal_call (OpenFile p m) = True"
| "fatal_call (Copy p b) = True"
| "fatal_call (Symlink t p) = True"
| "fatal_call (Link t p) = True"
| "fatal_call c = False"

fun perm_call :: "syscall \<Rightarrow> bool" where
  "perm_call (Chmod p m) = True"
| "perm_call (Chown p u g) = True"
| "perm_call (Lchown p u g) = True"
| "perm_call c = False"

definition clean :: "trace \<Rightarrow> bool" where
  "clean tr = (\<forall>(c, e) \<in> set tr. fatal_call c \<longrightarrow> e = Ok)"

text \<open>An environment in which setting owner or mode never fails, and is otherwise \<open>os\<close>.\<close>

definition permissive :: "OS \<Rightarrow> OS" where
  "permissive os = (\<lambda>h c. if perm_call c then Ok else os h c)"

text \<open>
  A run ends by a fatal call when its last call is one of the fatal class that failed,
  after a clean trace, and the process ended in \<open>log.Fatal\<close>; a run is sound when its
  trace is clean or it ends so.
\<close>

definition fatal_end :: "trace \<times> abort option \<Rightarrow> bool" where
  "fatal_end run =
     (snd run = Some LogFatal \<and> fst run \<noteq> [] \<and> clean (butlast (fst run))
      \<and> fatal_call (fst (last (fst run))) \<and> snd (last (fst run)) \<noteq> Ok)"

definition sound :: "trace \<times> abort option \<Rightarrow> bool" where
  "sound run = (clean (fst run) \<or> fatal_end run)"

text \<open>Two runs agree when they make the same calls and end the same way.\<close>

definition agree :: "trace \<times> abort option \<Rightarrow> trace \<times> abort option \<Rightarrow> bool" where
  "agree run run' = (map fst (fst run) = map fst (fst run') \<and> snd run = snd run')"

section \<open>The tar extractor: writer tasks and hard links\<close>

text \<open>
  The synchronisation of \<open>ExtractTar\<close> with its writer goroutines, as a transition system.
  The state holds the headers the main loop has still to handle, the number of tokens in
  the channel \<open>openFileTokens\<close>, the counter of the wait group \<open>wg\<close>, and the writer
  goroutines alive, counted by where they are: \<open>writing\<close> are those between their start
  and the deferred \<open>openFileTokens <- true\<close> (they open, fill, close the file and set
  owner and mode), \<open>leaving\<close> those that have given their token back and have the deferred
  \<open>wg.Done()\<close> still to run.  \<open>dispatched\<close> and \<open>completed\<close> count the writer tasks started
  and ended so far, \<open>linked\<close> the hard links created.
\<close>

record Extractor =
  todo :: "typeflag list"
  openFileTokens :: nat
  wg :: nat
  writing :: nat
  leaving :: nat
  dispatched :: nat
  completed :: nat
  linked :: nat

text \<open>
  \<open>ExtractTar\<close> makes the channel with capacity \<open>W\<close>, the number of write workers, and
  fills it with \<open>W\<close> tokens.
\<close>

definition initial :: "nat \<Rightarrow> typeflag list \<Rightarrow> Extractor" where
  "initial W headers =
     \<lparr>todo = headers, openFileTokens = W, wg = 0, writing = 0, leaving = 0,
      dispatched = 0, completed = 0, linked = 0\<rparr>"

text \<open>
  The steps.  The main loop, on a regular file: \<open><-openFileTokens\<close> (blocks while the
  channel is empty), \<open>wg.Add(1)\<close>, \<open>go writeFileAsync(...)\<close>; on a hard link: \<open>wg.Wait()\<close>
  (blocks while the counter is not 0), then \<open>os.Link\<close>; on anything else it goes on to
  the next header.  A writer goroutine: the deferred \<open>openFileTokens <- true\<close> (blocks while
  the channel is full), then the deferred \<open>wg.Done()\<close>.
\<close>

inductive extractor_step :: "nat \<Rightarrow> Extractor \<Rightarrow> Extractor \<Rightarrow> bool" for W :: nat where
  dispatch:
    "todo s = TypeReg # rest \<Longrightarrow> 0 < openFileTokens s \<Longrightarrow>
     extractor_step W s (s\<lparr>todo := rest, openFileTokens := openFileTokens s - 1, wg := wg s + 1,
                 writing := writing s + 1, dispatched := dispatched s + 1\<rparr>)"
| link:
    "todo s = TypeLink # rest \<Longrightarrow> wg s = 0 \<Longrightarrow>
     extractor_step W s (s\<lparr>todo := rest, linked := linked s + 1\<rparr>)"
| other:
    "todo s = t # rest \<Longrightarrow> t \<noteq> TypeReg \<Longrightarrow> t \<noteq> TypeLink \<Longrightarrow>
     extractor_step W s (s\<lparr>todo := rest\<rparr>)"
| release:
    "0 < writing s \<Longrightarrow> openFileTokens s < W \<Longrightarrow>
     extractor_step W s (s\<lparr>writing := writing s - 1, leaving := leaving s + 1,
                 openFileTokens := openFileTokens s + 1\<rparr>)"
| task_done:
    "0 < leaving s \<Longrightarrow>
     extractor_step W s (s\<lparr>leaving := leaving s - 1, wg := wg s - 1, completed := completed s + 1\<rparr>)"

inductive reachable :: "nat \<Rightarrow> typeflag list \<Rightarrow> Extractor \<Rightarrow> bool" for W :: nat and headers :: "typeflag list" where
  start: "reachable W headers (initial W headers)"
| further: "reachable W headers s \<Longrightarrow> extractor_step W s s' \<Longrightarrow> reachable W headers s'"

text \<open>The accounting that every reachable state keeps.\<close>

definition balanced :: "nat \<Rightarrow> Extractor \<Rightarrow> bool" where
  "balanced W s =
     (openFileTokens s + writing s = W \<and> wg s = writing s + leaving s
      \<and> dispatched s = completed s + writing s + leaving s)"

section \<open>Concrete inputs\<close>

text \<open>
  A server that answers the successive calls of \<open>client.Do\<close> from a script (and fails
  the transport once the script is over), and a configuration in the style of the
  repository's tests.
\<close>

definition reply :: "int \<Rightarrow> int \<Rightarrow> string \<Rightarrow> Response" where
  "reply code len ar =
     \<lparr>StatusCode = code, ContentLength = len,
      Header = (\<lambda>k. if k = ''Accept-Ranges'' then ar else ''''), Body = ''''\<rparr>"

definition scripted :: "round_trip list \<Rightarrow> HttpDownloader" where
  "scripted rts =
     \<lparr>Url = ''http://example.com'',
      client = (\<lambda>req n. if n < length rts then rts ! n else TransportError)\<rparr>"

definition example_opts :: Options where
  "example_opts =
     \<lparr>ChunkSize = 1000000, RetryCount = 3, RetryWait = 1, MaxWait = 5, MinSpeedWait = 5,
      Headers = [], minSpeedBytesPerMillisecond = 1\<rparr>"

definition example_lib :: Stdlib where
  "example_lib =
     \<lparr>http_NewRequest = (\<lambda>m u. Some \<lparr>Method = m, ReqHeader = []\<rparr>),
      mime_ParseMediaType = (\<lambda>s. None),
      multipart_NewReader = (\<lambda>body boundary. [])\<rparr>"


text \<open>
  The configuration of the download tests (\<open>opts.RetryCount = math.MaxInt64\<close>), a clock,
  and the test adapter over a string.
\<close>

definition test_opts :: Options where
  "test_opts = example_opts\<lparr>RetryCount := 2 ^ 63 - 1\<rparr>"

definition test_clock :: "nat \<Rightarrow> nat \<Rightarrow> Elapsed" where
  "test_clock i k = \<lparr>chunkElapsedMilli = int k, attemptElapsedMilli = int k\<rparr>"

definition test_downloader :: "string \<Rightarrow> bool \<Rightarrow> bool \<Rightarrow> Downloader" where
  "test_downloader s r m =
     TestDownloader_iface \<lparr>Data = s, RangeSupport = r, MultipartSupport = m\<rparr>"




text \<open>
  An extraction as an unprivileged user: every call succeeds but those that set the
  owner; and, second, a disk on which nothing can be opened.  The archive holds a
  directory and a file in it.
\<close>

definition example_paths :: PathLib where
  "example_paths =
     \<lparr>filepath_Join = (\<lambda>elems. case elems of [] \<Rightarrow> '''' | x # xs \<Rightarrow> foldl (\<lambda>a b. a @ ''/'' @ b) x xs),
      filepath_Dir = (\<lambda>p. ''out/'')\<rparr>"

definition example_flags :: TarFlags where
  "example_flags =
     \<lparr>writeWorkers = 8, stripComponents = 0, outputDir = ''out'', overwrite = False,
      ignoreNodeFiles = False\<rparr>"

definition unprivileged :: OS where
  "unprivileged h c = (case c of Chown p u g \<Rightarrow> Failed | Lchown p u g \<Rightarrow> Failed | _ \<Rightarrow> Ok)"

definition read_only :: OS where
  "read_only h c = (case c of OpenFile p m \<Rightarrow> Failed | _ \<Rightarrow> Ok)"

definition example_archive :: "tar_next list" where
  "example_archive =
     [Next \<lparr>Name = ''d'', Linkname = '''', Typeflag = TypeDir, Uid = 0, Gid = 0, Mode = 493\<rparr> None,
      Next \<lparr>Name = ''d/f'', Linkname = '''', Typeflag = TypeReg, Uid = 0, Gid = 0, Mode = 420\<rparr>
        (Some ''hello'')]"

text \<open>
  One write worker, and an archive of a regular file and a hard link: the states after
  the file's writer task has been dispatched, and after it has ended.
\<close>

definition file_dispatched :: Extractor where
  "file_dispatched =
     \<lparr>todo = [TypeLink], openFileTokens = 0, wg = 1, writing = 1, leaving = 0,
      dispatched = 1, completed = 0, linked = 0\<rparr>"

definition file_written :: Extractor where
  "file_written =
     \<lparr>todo = [TypeLink], openFileTokens = 1, wg = 0, writing = 0, leaving = 0,
      dispatched = 1, completed = 1, linked = 0\<rparr>"

section \<open>Properties\<close>

subsection \<open>Machine integers\<close>

lemma int64_id: "is_int64 x \<Longrightarrow> int64 x = x"
  by (simp add: int64_def is_int64_def)

lemma is_int64_int64: "is_int64 (int64 x)"
proof -
  have "0 \<le> (x + 2 ^ 63) mod (2 ^ 64 :: int)" "(x + 2 ^ 63) mod (2 ^ 64 :: int) < 2 ^ 64"
    by simp_all
  then show ?thesis by (simp add: int64_def is_int64_def)
qed

subsection \<open>Range strings\<close>

lemma wire_ranges_Cons:
  "wire_ranges ((a, b) # rs) =
     FormatInt a @ ''-'' @ FormatInt (b - 1) @ (if rs = [] then '''' else '','' @ wire_ranges rs)"
  by (cases rs) auto

lemma GenerateRangeString_loop_wire:
  assumes "\<forall>r \<in> set ps. half_open r" and "i \<le> length ps"
  shows "GenerateRangeString_loop (map range_pair ps) i acc = Inr (acc @ wire_ranges (drop i ps))"
  using assms(2)
proof (induction "length ps - i" arbitrary: i acc)
  case 0
  then show ?case by (simp add: GenerateRangeString_loop.simps)
next
  case (Suc n)
  then have lt: "i < length ps" by simp
  obtain a b where ab: "ps ! i = (a, b)" by (cases "ps ! i")
  from lt assms(1) ab have "half_open (a, b)" by (metis nth_mem)
  then have w: "int64 (b - 1) = b - 1"
    by (intro int64_id) (simp add: half_open_def is_int64_def)
  have d: "drop i ps = (a, b) # drop (Suc i) ps"
    using lt ab by (simp add: Cons_nth_drop_Suc [symmetric])
  have n: "n = length ps - (i + 1)" using Suc.hyps(2) by simp
  have le: "i + 1 \<le> length ps" using lt by simp
  show ?case
    using lt ab w Suc.hyps(1) [OF n le]
    by (subst GenerateRangeString_loop.simps)
       (simp add: d wire_ranges_Cons index_def range_pair_def)
qed

text \<open>
  C8. For every non-empty list of half-open ranges \<open>[[a0,b0],[a1,b1],...]\<close>,
  \<open>GenerateRangeString\<close> returns the inclusive wire-format string
  \<open>bytes=a0-(b0-1),a1-(b1-1),...\<close>; in particular \<open>[[0,1]]\<close> yields \<open>bytes=0-0\<close> and
  \<open>[[0,1],[3,6]]\<close> yields \<open>bytes=0-0,3-5\<close>.
\<close>

theorem GenerateRangeString_wire_format:
  "(ps \<noteq> [] \<and> (\<forall>r \<in> set ps. half_open r) \<longrightarrow>
      GenerateRangeString (map range_pair ps) = Inr (''bytes='' @ wire_ranges ps))
   \<and> GenerateRangeString [[0, 1]] = Inr ''bytes=0-0''
   \<and> GenerateRangeString [[0, 1], [3, 6]] = Inr ''bytes=0-0,3-5''"
proof (intro conjI impI)
  assume "ps \<noteq> [] \<and> (\<forall>r \<in> set ps. half_open r)"
  then show "GenerateRangeString (map range_pair ps) = Inr (''bytes='' @ wire_ranges ps)"
    using GenerateRangeString_loop_wire [of ps 0 "''bytes=''"]
    by (simp add: GenerateRangeString_def)
next
  show "GenerateRangeString [[0, 1]] = Inr ''bytes=0-0''"
    by (simp add: GenerateRangeString_def GenerateRangeString_loop.simps index_def
        FormatInt_def digits10.simps int64_def)
next
  show "GenerateRangeString [[0, 1], [3, 6]] = Inr ''bytes=0-0,3-5''"
    by (simp add: GenerateRangeString_def GenerateRangeString_loop.simps index_def
        FormatInt_def digits10.simps int64_def)
qed

theorem GenerateRangeString_wire_format_witness:
  "[(5 :: int, 8 :: int), (20, 21)] \<noteq> [] \<and> half_open (5, 8) \<and> half_open (20, 21)
   \<and> GenerateRangeString [[5, 8], [20, 21]] = Inr ''bytes=5-7,20-20''"
  using GenerateRangeString_wire_format [of "[(5, 8), (20, 21)]"]
  by (simp add: half_open_def range_pair_def FormatInt_def digits10.simps)

subsection \<open>Chunk boundaries\<close>



subsection \<open>The retry policy of the HTTP adapter\<close>









subsection \<open>The chunk reader over the test adapter\<close>

lemma slice_chunk:
  assumes "0 \<le> cs" "cs < int (length D)" "0 < C"
  shows "slice D cs (min (cs + C) (int (length D))) = Inr (chunkBytes D C cs)"
proof -
  have "take (nat (min (cs + C) (int (length D))) - nat cs) (drop (nat cs) D)
        = take (nat C) (drop (nat cs) D)"
  proof (cases "cs + C \<le> int (length D)")
    case True
    with assms have "nat (min (cs + C) (int (length D))) - nat cs = nat C" by (auto simp: min_def)
    then show ?thesis by simp
  next
    case False
    with assms have "nat (min (cs + C) (int (length D))) - nat cs = length (drop (nat cs) D)"
      by (auto simp: min_def)
    moreover from False assms have "length (drop (nat cs) D) \<le> nat C" by auto
    ultimately show ?thesis by simp
  qed
  with assms show ?thesis by (simp add: slice_def chunkBytes_def min_def)
qed

lemma length_chunkBytes:
  assumes "0 \<le> cs" "cs < int (length D)" "0 < C"
  shows "int (length (chunkBytes D C cs)) = min C (int (length D) - cs)"
  using assms by (auto simp: chunkBytes_def min_def)

lemma chunkBytes_nonempty:
  assumes "0 \<le> cs" "cs < int (length D)" "0 < C"
  shows "chunkBytes D C cs \<noteq> []"
  using length_chunkBytes [OF assms] assms by auto

lemma stripeOffsets_range: "x \<in> set (stripeOffsets S step start) \<Longrightarrow> 0 \<le> x \<and> x < S"
proof (induction S step start rule: stripeOffsets.induct)
  case (1 S step start)
  then show ?case
    by (subst (asm) (2) stripeOffsets.simps) (auto split: if_splits)
qed

lemma stripeOffsets_upt:
  "0 < step \<Longrightarrow> 0 \<le> start \<Longrightarrow>
         map (\<lambda>k. start + int k * step) [0 ..< nat ((S - start + step - 1) div step)]
         = stripeOffsets S step start"
proof (induction S step start rule: stripeOffsets.induct)
  case (1 S step start)
  note assms = \<open>0 < step\<close>
  show ?case
  proof (cases "start < S")
    case True
    have "(S - start + step - 1) div step = ((S - (start + step) + step - 1) + step) div step"
      by (simp add: algebra_simps)
    also have "\<dots> = (S - (start + step) + step - 1) div step + 1"
      using assms by (intro div_add_self2) simp
    finally have d: "(S - start + step - 1) div step = 1 + (S - (start + step) + step - 1) div step"
      by simp
    have nn: "0 \<le> (S - (start + step) + step - 1) div step"
      using True assms by (simp add: pos_imp_zdiv_nonneg_iff)
    define n where "n = nat ((S - (start + step) + step - 1) div step)"
    have c: "nat ((S - start + step - 1) div step) = Suc n"
      using nn by (simp add: d n_def)
    have u: "[0 ..< Suc n] = 0 # map Suc [0 ..< n]"
      by (subst upt_conv_Cons) (simp_all only: map_Suc_upt zero_less_Suc)
    have "map (\<lambda>k. start + int k * step) [0 ..< Suc n]
          = start # map (\<lambda>k. (start + step) + int k * step) [0 ..< n]"
      unfolding u by (simp add: algebra_simps del: upt_Suc)
    also have "map (\<lambda>k. (start + step) + int k * step) [0 ..< n] = stripeOffsets S step (start + step)"
      using "1.IH" "1.prems" True assms by (simp add: n_def)
    finally show ?thesis
      using True "1.prems" assms by (subst stripeOffsets.simps) (simp add: c)
  next
    case False
    then have "(S - start + step - 1) div step \<le> (step - 1) div step"
      using assms by (intro zdiv_mono1) simp_all
    also have "(step - 1) div step = 0"
      using assms by (simp add: div_pos_pos_trivial)
    finally have "(S - start + step - 1) div step \<le> 0" .
    with False show ?thesis by (subst stripeOffsets.simps) simp
  qed
qed

lemma stripeCount_Suc:
  assumes "0 < step" "start < S"
  shows "nat ((S - start + step - 1) div step) = Suc (nat ((S - (start + step) + step - 1) div step))"
proof -
  have "(S - start + step - 1) div step = ((S - (start + step) + step - 1) + step) div step"
    by (simp add: algebra_simps)
  also have "\<dots> = (S - (start + step) + step - 1) div step + 1"
    using assms by (intro div_add_self2) simp
  finally have d: "(S - start + step - 1) div step = 1 + (S - (start + step) + step - 1) div step"
    by simp
  have "0 \<le> (S - (start + step) + step - 1) div step"
    using assms by (simp add: pos_imp_zdiv_nonneg_iff)
  then show ?thesis by (simp add: d)
qed

lemma upt_Suc_shift: "[0 ..< Suc n] = 0 # map Suc [0 ..< n]"
  by (subst upt_conv_Cons) (simp_all only: map_Suc_upt zero_less_Suc)

lemma stripe_eq:
  assumes "attached t C N cs r" "0 \<le> cs" "cs < int (length (Data t))" "0 < N * C"
  shows "stripe r from =
         [from, min (cs + C) (int (length (Data t)))]
         # map (\<lambda>start. [start, min (start + C) (int (length (Data t)))])
             (stripeOffsets (int (length (Data t))) (N * C) (cs + N * C))"
proof -
  define S where "S = int (length (Data t))"
  define n where "n = nat ((S - (cs + N * C) + N * C - 1) div (N * C))"
  have r: "Size r = S" "ChunkLen r = C" "NumWorkers r = N" "CurChunkStart r = cs"
    using assms(1) by (simp_all add: attached_def S_def)
  have c: "stripeCount r = Suc n"
    using assms stripeCount_Suc [of "N * C" cs S] by (simp add: stripeCount_def r n_def S_def)
  have o: "map (\<lambda>k. (cs + N * C) + int k * (N * C)) [0 ..< n] = stripeOffsets S (N * C) (cs + N * C)"
    unfolding n_def using assms by (intro stripeOffsets_upt) simp_all
  have "stripe r from =
        [from, min (cs + C) S]
        # map (\<lambda>start. [start, min (start + C) S]) (map (\<lambda>k. (cs + N * C) + int k * (N * C)) [0 ..< n])"
    unfolding stripe_def c upt_Suc_shift
    by (simp add: r chunkEnd_def Let_def algebra_simps comp_def del: upt_Suc)
  then show ?thesis by (simp add: o S_def)
qed

lemma TestDownloader_GetRanges_loop_chunks:
  assumes "0 < C" "\<forall>start \<in> set os. 0 \<le> start \<and> start < int (length (Data t))"
  shows "TestDownloader_GetRanges_loop t (map (\<lambda>start. [start, min (start + C) (int (length (Data t)))]) os)
         = Inr (map (chunkBytes (Data t) C) os)"
  using assms(2)
proof (induction os)
  case Nil
  then show ?case by simp
next
  case (Cons a os)
  then show ?case using assms(1) by (simp add: index_def slice_chunk)
qed

lemma RequestChunk_idle:
  assumes "idle t C N cs r" "0 \<le> cs" "cs < int (length (Data t))" "0 < C" "0 < N"
  shows "\<exists>r'. RequestChunk r = Inr r' \<and> loaded t C N cs r' \<and> Multipart r' = Multipart r"
proof -
  define S where "S = int (length (Data t))"
  have nc: "0 < N * C" using assms by simp
  have a: "attached t C N cs r" and b: "body r = None" using assms(1) by (simp_all add: idle_def)
  have r: "Size r = S" "ChunkLen r = C" "NumWorkers r = N" "CurChunkStart r = cs"
    "adapter r = TestDownloader_iface t"
    using a by (simp_all add: attached_def S_def)
  have so: "stripeOffsets S (N * C) cs = cs # stripeOffsets S (N * C) (cs + N * C)"
    using assms nc by (subst stripeOffsets.simps) (simp add: S_def)
  show ?thesis
  proof (cases "Multipart r")
    case False
    then show ?thesis
      using assms b a slice_chunk [of cs "Data t" C]
      by (simp add: RequestChunk_def Reset_def r chunkEnd_def TestDownloader_iface_def
          TestDownloader_GetRange_def loaded_def attached_def S_def)
  next
    case True
    have all: "\<forall>start \<in> set (stripeOffsets S (N * C) (cs + N * C)). 0 \<le> start \<and> start < S"
      using stripeOffsets_range by blast
    have g: "GetRanges (adapter r) (stripe r cs) =
             Inr (Some (chunkBytes (Data t) C cs
                        # map (chunkBytes (Data t) C) (stripeOffsets S (N * C) (cs + N * C))))"
      using assms slice_chunk [of cs "Data t" C]
        TestDownloader_GetRanges_loop_chunks [of C "stripeOffsets S (N * C) (cs + N * C)" t] all
      by (simp add: stripe_eq [OF a assms(2,3) nc] r TestDownloader_iface_def
          TestDownloader_GetRanges_def index_def S_def)
    from assms(1) True consider "parts r = None"
      | "parts r = Some (map (chunkBytes (Data t) C) (stripeOffsets S (N * C) cs))"
      by (auto simp: idle_def S_def)
    then show ?thesis
    proof cases
      case 1
      then show ?thesis
        using True b a g
        by (simp add: RequestChunk_def Reset_def loaded_def attached_def S_def)
    next
      case 2
      then show ?thesis
        using True b a
        by (simp add: RequestChunk_def so [unfolded S_def] loaded_def attached_def S_def)
    qed
  qed
qed

lemma readerLoop_loaded:
  assumes "loaded t C N cs (reader w)" "length (buf w) = nat C" "totalRead w = 0"
    and "0 \<le> cs" "cs < int (length (Data t))" "0 < C" "int (length (Data t)) < 2 ^ 63"
  shows "\<exists>w'. readerLoop opts clock (int (length (Data t))) C w = Some (Inr w')
           \<and> attached t C N cs (reader w') \<and> body (reader w') = None
           \<and> Multipart (reader w') = Multipart (reader w) \<and> parts (reader w') = parts (reader w)
           \<and> length (buf w') = nat C
           \<and> slice (buf w') 0 (totalRead w') = Inr (chunkBytes (Data t) C cs)"
proof -
  define S where "S = int (length (Data t))"
  define ch where "ch = chunkBytes (Data t) C cs"
  have len: "int (length ch) = min C (S - cs)" and ne: "ch \<noteq> []"
    using assms length_chunkBytes [of cs "Data t" C] chunkBytes_nonempty [of cs "Data t" C]
    by (simp_all add: ch_def S_def)
  have le: "length ch \<le> nat C" using len by linarith
  have b: "body (reader w) = Some ch" and cs: "CurChunkStart (reader w) = cs"
    using assms(1) by (simp_all add: loaded_def attached_def ch_def)
  have rd: "Read (reader w) (nat C) = ((reader w)\<lparr>body := Some []\<rparr>, ch, False)"
    using b ne le by (simp add: Read_def)
  have i1: "int64 (int (length ch)) = int (length ch)"
    using len assms by (intro int64_id) (simp add: is_int64_def S_def)
  have i2: "int64 (cs + int (length ch)) = cs + int (length ch)"
    using len assms by (intro int64_id) (auto simp: is_int64_def S_def min_def)
  have fin: "ChunkFinished cs (int (length ch)) S C"
    unfolding ChunkFinished_def i2 using len by linarith
  define w' where "w' = w\<lparr>reader := Close ((reader w)\<lparr>body := Some []\<rparr>),
                           buf := ch @ drop (length ch) (buf w), totalRead := int (length ch)\<rparr>"
  have "readPass opts S C (clock (passes w)) w = Finished w'"
    using assms(2,3,6) fin
    by (simp add: readPass_def rd Let_def i1 cs Close_def w'_def)
  then have "readerLoop opts clock S C w = Some (Inr w')"
    by (subst readerLoop.simps) simp
  moreover have "attached t C N cs (reader w')" "body (reader w') = None"
    "Multipart (reader w') = Multipart (reader w)" "parts (reader w') = parts (reader w)"
    using assms(1) by (simp_all add: w'_def Close_def loaded_def attached_def)
  moreover have "length (buf w') = nat C"
    using le assms(2) by (simp add: w'_def)
  moreover have "slice (buf w') 0 (totalRead w') = Inr ch"
    using le assms(2,6) by (simp add: w'_def slice_def)
  ultimately show ?thesis unfolding S_def ch_def by blast
qed

lemma stripeTurns_Cons:
  assumes "0 \<le> cs" "cs < int (length D)" "0 < N * C"
  shows "stripeTurns D C N cs = expectedTurn D C cs # stripeTurns D C N (cs + N * C)"
  using assms by (simp add: stripeTurns_def stripeOffsets.simps [of _ _ cs])

lemma stripeTurns_Nil: "int (length D) \<le> cs \<Longrightarrow> stripeTurns D C N cs = []"
  by (simp add: stripeTurns_def stripeOffsets.simps [of _ _ cs])

lemma writePartial_loop_stripe:
  assumes "0 < C" "0 < N" "int (length (Data t)) + N * C < 2 ^ 63"
  shows "idle t C N cs (reader w) \<Longrightarrow> length (buf w) = nat C \<Longrightarrow> 0 \<le> cs \<Longrightarrow>
         writePartial_loop opts clock (int (length (Data t))) C w acc
         = Some (acc @ stripeTurns (Data t) C N cs, None)"
proof (induction "nat (int (length (Data t)) - cs)" arbitrary: cs w acc rule: less_induct)
  case less
  define S where "S = int (length (Data t))"
  have nc: "0 < N * C" using assms by simp
  have S63: "S < 2 ^ 63" using assms(3) nc unfolding S_def by linarith
  have cur: "CurChunkStart (reader w) = cs"
    using less.prems(1) by (simp add: idle_def attached_def)
  show ?case
  proof (cases "cs < S")
    case False
    then show ?thesis
      by (subst writePartial_loop.simps) (simp add: cur stripeTurns_Nil S_def)
  next
    case True
    obtain r' where r': "RequestChunk (reader w) = Inr r'" "loaded t C N cs r'"
      using RequestChunk_idle [OF less.prems(1) less.prems(3) True [unfolded S_def] assms(1,2)]
      by blast
    define w2 where "w2 = w\<lparr>reader := r',
       attemptNumber := (if \<not> UseMultipart r' then 1 else attemptNumber w), totalRead := 0\<rparr>"
    have "loaded t C N cs (reader w2)" "length (buf w2) = nat C" "totalRead w2 = 0"
      using r'(2) less.prems(2) by (simp_all add: w2_def)
    from readerLoop_loaded [OF this less.prems(3) True [unfolded S_def] assms(1) S63 [unfolded S_def],
        of opts clock]
    obtain w' where w': "readerLoop opts clock S C w2 = Some (Inr w')"
      "attached t C N cs (reader w')" "body (reader w') = None"
      "Multipart (reader w') = Multipart (reader w2)" "parts (reader w') = parts (reader w2)"
      "length (buf w') = nat C" "slice (buf w') 0 (totalRead w') = Inr (chunkBytes (Data t) C cs)"
      unfolding S_def by blast
    have cur': "CurChunkStart (reader w') = cs" using w'(2) by (simp add: attached_def)
    have nf: "\<not> ChunkFinished cs 0 S C"
      using True assms(1) less.prems(3) S63 by (simp add: ChunkFinished_def int64_id is_int64_def)
    have wa: "writerActivity S C w' = Inr [chunkBytes (Data t) C cs]"
      using nf w'(7) by (simp add: writerActivity_def cur')
    have "1 * C \<le> N * C" using assms by (intro mult_right_mono) simp_all
    then have cle: "C \<le> N * C" by simp
    have "is_int64 (cs + C)"
      unfolding is_int64_def using True assms(1,3) less.prems(3) cle S_def by linarith
    then have i1: "int64 (cs + C) = cs + C" by (rule int64_id)
    have "is_int64 (N * C)"
      unfolding is_int64_def using assms(3) nc by linarith
    then have i2: "int64 (N * C) = N * C" by (rule int64_id)
    have "is_int64 (cs + N * C)"
      unfolding is_int64_def using True assms(3) less.prems(3) nc S_def by linarith
    then have i3: "int64 (cs + N * C) = cs + N * C" by (rule int64_id)
    define w3 where "w3 = w'\<lparr>reader := AdvanceNextChunk (reader w')\<rparr>"
    have adv: "idle t C N (cs + N * C) (reader w3)"
      using w'(2,3,4,5) r'(2)
      by (auto simp: w3_def AdvanceNextChunk_def idle_def attached_def loaded_def w2_def i2 i3)
    have "writePartial_loop opts clock S C w3 (acc @ [expectedTurn (Data t) C cs])
          = Some ((acc @ [expectedTurn (Data t) C cs]) @ stripeTurns (Data t) C N (cs + N * C), None)"
      unfolding S_def
      using True nc less.prems(3) w'(6)
      by (intro less.hyps [OF _ adv]) (simp_all add: w3_def S_def)
    then show ?thesis
      using True less.prems(3) nc
      by (subst writePartial_loop.simps)
         (simp add: writePartial_chunk_def cur r'(1) w2_def [symmetric] w' wa cur' i1
            w3_def [symmetric] S_def [symmetric]
            expectedTurn_def stripeTurns_Cons [of cs "Data t" N C])
  qed
qed

lemma mod_unique_window:
  fixes c k N :: nat
  assumes "c mod N = k mod N" "k \<le> c" "c < k + N"
  shows "c = k"
proof -
  from assms(1,2) obtain s where s: "c = k + N * s" by (rule mod_eq_nat1E)
  with assms(3) have "N * s < N * 1" by simp
  then have "s = 0" by (simp only: mult_less_cancel1) simp
  with s show ?thesis by simp
qed

lemma those_map_Some: "those (map (\<lambda>x. Some (f x)) xs) = Some (map f xs)"
  by (induction xs) simp_all

lemma pipe_append_chunk:
  assumes "0 < C"
  shows "take (nat (int k * C)) D @ chunkBytes D C (int k * C) = take (nat (int (Suc k) * C)) D"
proof -
  have "nat (int (Suc k) * C) = nat (int k * C) + nat C"
    using assms by (simp add: nat_add_distrib algebra_simps)
  then show ?thesis by (simp add: chunkBytes_def take_add)
qed

lemma tokenRing_delivers:
  assumes "0 < C" "0 < N"
  shows "ringAt D C N k ws \<Longrightarrow> int k * C < int (length D) \<Longrightarrow>
         tokenRing ws (k mod N) (take (nat (int k * C)) D) = Inr D"
proof (induction "nat (int (length D) - int k * C)" arbitrary: k ws rule: less_induct)
  case less
  define cur where "cur = k mod N"
  have curN: "cur < N" using assms(2) by (simp add: cur_def)
  have len: "length ws = N" using less.prems(1) by (simp add: ringAt_def)
  from less.prems(1) curN obtain c where
    c: "ws ! cur = ((cur + 1) mod N, stripeTurns D C (int N) (int c * C), None)"
      "c mod N = cur" "k \<le> c" "c < k + N"
    unfolding ringAt_def by blast
  have ck: "c = k" using c(2,3,4) mod_unique_window [of c N k] by (simp add: cur_def)
  have nc: "0 < int N * C" using assms by simp
  have st: "stripeTurns D C (int N) (int k * C)
            = expectedTurn D C (int k * C) # stripeTurns D C (int N) (int (k + N) * C)"
    using less.prems(2) assms nc stripeTurns_Cons [of "int k * C" D "int N" C]
    by (simp add: algebra_simps)
  have wcur: "ws ! cur = ((cur + 1) mod N,
      expectedTurn D C (int k * C) # stripeTurns D C (int N) (int (k + N) * C), None)"
    using c(1) ck st by simp
  show ?case
  proof (cases "int k * C + C < int (length D)")
    case False
    then have "length D \<le> nat (int (Suc k) * C)" by (simp add: algebra_simps)
    then have "take (nat (int (Suc k) * C)) D = D" by simp
    then show ?thesis
      using False curN len pipe_append_chunk [OF assms(1), of k D]
      by (subst tokenRing.simps) (simp add: cur_def [symmetric] wcur expectedTurn_def)
  next
    case True
    define ws' where "ws' = ws[cur := ((cur + 1) mod N, stripeTurns D C (int N) (int (k + N) * C), None)]"
    have nxt: "(cur + 1) mod N = Suc k mod N"
      by (simp add: cur_def mod_Suc_eq)
    have inv: "ringAt D C N (Suc k) ws'"
      unfolding ringAt_def
    proof (intro conjI allI impI)
      show "length ws' = N" by (simp add: ws'_def len)
    next
      fix w assume w: "w < N"
      show "\<exists>c. ws' ! w = ((w + 1) mod N, stripeTurns D C (int N) (int c * C), None)
                 \<and> c mod N = w \<and> Suc k \<le> c \<and> c < Suc k + N"
      proof (cases "w = cur")
        case True
        then show ?thesis
          using curN len by (intro exI [of _ "k + N"]) (simp add: ws'_def cur_def)
      next
        case False
        from less.prems(1) w obtain c' where
          c': "ws ! w = ((w + 1) mod N, stripeTurns D C (int N) (int c' * C), None)"
            "c' mod N = w" "k \<le> c'" "c' < k + N"
          unfolding ringAt_def by blast
        from False c'(2) have "c' \<noteq> k" by (auto simp: cur_def)
        with c' False show ?thesis
          by (intro exI [of _ c']) (simp add: ws'_def)
      qed
    qed
    have lt: "int (Suc k) * C < int (length D)" using True by (simp add: algebra_simps)
    have "tokenRing ws (k mod N) (take (nat (int k * C)) D)
          = tokenRing ws' (Suc k mod N) (take (nat (int (Suc k) * C)) D)"
      using True curN len pipe_append_chunk [OF assms(1), of k D]
      by (subst tokenRing.simps)
         (simp add: cur_def [symmetric] wcur expectedTurn_def ws'_def nxt [symmetric])
    also have "\<dots> = Inr D"
      using assms(1) True by (intro less.hyps [OF _ inv lt]) (simp add: algebra_simps)
    finally show ?thesis .
  qed
qed

lemma GetDownloadStream_Direct:
  assumes "GetFileInfo d = Inr (sz, supportsRange, supportsMultipart)"
    and "\<not> supportsRange \<or> sz < chunkSize"
  shows "GetDownloadStream d chunkSize numWorkers = map_sum id Direct (Get d)"
  using assms by (auto simp: GetDownloadStream_def split: sum.splits)

lemma writePartial_stripe:
  assumes "0 < C" "0 < N" "int (length (Data t)) + N * C < 2 ^ 63" "int i < N"
  shows "writePartial opts clock
           \<lparr>arg_downloader = TestDownloader_iface t, arg_supportsMultipart = m,
            arg_size = int (length (Data t)), arg_start = int64 (int i * C), arg_chunkSize = C,
            arg_numWorkers = N, arg_curChan = i, arg_nextChan = nx\<rparr>
         = Some (stripeTurns (Data t) C N (int i * C), None)"
proof -
  have "int i * C \<le> N * C" using assms by (intro mult_right_mono) simp_all
  moreover have "0 \<le> int i * C" using assms by simp
  ultimately have "is_int64 (int i * C)"
    unfolding is_int64_def using assms(3) by linarith
  then have s: "int64 (int i * C) = int i * C" by (rule int64_id)
  define w where "w = \<lparr>reader = NewReader (int (length (Data t))) (int i * C) C N m (TestDownloader_iface t),
           attemptNumber = 1, buf = replicate (nat C) (CHR 0x00), totalRead = 0, passes = 0\<rparr>"
  have "idle t C N (int i * C) (reader w)" "length (buf w) = nat C"
    by (simp_all add: w_def idle_def attached_def NewReader_def)
  from writePartial_loop_stripe [OF assms(1,2,3) this, of opts clock "[]"] assms(1)
  show ?thesis
    by (simp add: writePartial_def s w_def)
qed

lemma zip_map_same: "zip (map f xs) (map g xs) = map (\<lambda>x. (f x, g x)) xs"
  by (induction xs) simp_all

lemma download_parallel:
  assumes "RangeSupport t" "0 < C" "C \<le> int (length (Data t))" "0 < N"
    and "int (length (Data t)) + N * C < 2 ^ 63"
  shows "download opts clock (TestDownloader_iface t) C N = Some (Inr (Data t))"
proof -
  define D where "D = Data t"
  define n where "n = nat N"
  have n: "0 < n" "int n = N" using assms(4) by (simp_all add: n_def)
  define mk where "mk = (\<lambda>i. \<lparr>arg_downloader = TestDownloader_iface t,
       arg_supportsMultipart = MultipartSupport t, arg_size = int (length D),
       arg_start = int64 (int i * C), arg_chunkSize = C, arg_numWorkers = N,
       arg_curChan = i, arg_nextChan = (i + 1) mod n\<rparr>)"
  have g: "GetDownloadStream (TestDownloader_iface t) C N = Inr (Pipe (map mk [0 ..< n]))"
    using assms
    by (simp add: GetDownloadStream_def TestDownloader_iface_def TestDownloader_GetFileInfo_def
        mk_def n_def D_def)
  have wp: "map (\<lambda>g. writePartial opts (clock (arg_curChan g)) g) (map mk [0 ..< n])
            = map (\<lambda>i. Some (stripeTurns D C N (int i * C), None)) [0 ..< n]"
    unfolding map_map comp_def
  proof (rule map_cong [OF refl])
    fix i assume "i \<in> set [0 ..< n]"
    then have "int i < N" using n by simp
    from writePartial_stripe [OF assms(2,4,5) this, of opts "clock i" "MultipartSupport t" "(i + 1) mod n"]
    show "writePartial opts (clock (arg_curChan (mk i))) (mk i)
          = Some (stripeTurns D C N (int i * C), None)"
      by (simp add: mk_def D_def)
  qed
  define ws where "ws = map (\<lambda>i. ((i + 1) mod n, stripeTurns D C (int n) (int i * C), None :: abort option)) [0 ..< n]"
  have z: "zip (map arg_nextChan (map mk [0 ..< n]))
               (map (\<lambda>i. (stripeTurns D C N (int i * C), None)) [0 ..< n]) = ws"
    unfolding map_map comp_def zip_map_same ws_def by (simp add: mk_def n)
  have "ringAt D C n 0 ws"
    unfolding ringAt_def
  proof (intro conjI allI impI)
    show "length ws = n" by (simp add: ws_def)
  next
    fix w assume "w < n"
    then show "\<exists>c. ws ! w = ((w + 1) mod n, stripeTurns D C (int n) (int c * C), None)
                  \<and> c mod n = w \<and> 0 \<le> c \<and> c < 0 + n"
      by (intro exI [of _ w]) (simp add: ws_def)
  qed
  moreover have "int 0 * C < int (length D)" using assms(2,3) unfolding D_def by linarith
  ultimately have "tokenRing ws (0 mod n) (take (nat (int 0 * C)) D) = Inr D"
    by (rule tokenRing_delivers [OF assms(2) n(1)])
  then have "tokenRing ws 0 [] = Inr D" by simp
  moreover have "ReadAll opts clock (Pipe (map mk [0 ..< n])) = Some (tokenRing ws 0 [])"
    by (simp only: ReadAll_def Stream.case wp those_map_Some z option.case)
  ultimately show ?thesis
    by (simp add: download_def g D_def)
qed

lemma download_direct:
  assumes "\<not> RangeSupport t \<or> int (length (Data t)) < C"
  shows "download opts clock (TestDownloader_iface t) C N = Some (Inr (Data t))"
  using assms
  by (auto simp: download_def GetDownloadStream_def TestDownloader_iface_def
      TestDownloader_GetFileInfo_def TestDownloader_Get_def ReadAll_def)

subsection \<open>The download stream\<close>

text \<open>
  C1 as the code has it.  The claim: for every object of size \<open>S\<close> with \<open>0 \<le> S < 64\<close>,
  every chunk size \<open>C\<close> with \<open>0 \<le> C < 32\<close> and every worker count \<open>N\<close> with
  \<open>1 \<le> N < 32\<close>, reading the stream returned by \<open>GetDownloadStream(downloader, C, N)\<close>
  to the end yields exactly the object's bytes, in order, in all three adapter modes.
  This fails for \<open>C = 0\<close> when the adapter supports range requests: every worker then
  divides by the chunk size and panics (the range tests of the repository start at
  chunk size 1).
\<close>

theorem download_chunk_size_zero_counterexample:
  "length ''abc'' < 64 \<and> (0 :: int) \<le> 0 \<and> (0 :: int) < 32 \<and> (1 :: int) \<le> 1 \<and> (1 :: int) < 32
   \<and> download test_opts test_clock (test_downloader ''abc'' True False) 0 1
       = Some (Inl RuntimePanic)
   \<and> download test_opts test_clock (test_downloader ''abc'' True True) 0 1
       = Some (Inl RuntimePanic)"
  by (simp add: download_def GetDownloadStream_def test_downloader_def TestDownloader_iface_def
      TestDownloader_GetFileInfo_def ReadAll_def writePartial_def tokenRing.simps)

text \<open>
  C1, amended: the same for the full-stream fallback with every \<open>0 \<le> C < 32\<close>, and for
  the single-range and the multipart mode with every \<open>1 \<le> C < 32\<close>.  The test adapter
  \<open>t\<close> is in full-stream mode without range support, else in multipart or single-range
  mode as \<open>MultipartSupport t\<close> says; the clock and the options are arbitrary.
\<close>

theorem download_byte_exact:
  assumes "length (Data t) < 64" and "0 \<le> C" and "C < 32" and "1 \<le> N" and "N < 32"
    and "RangeSupport t \<longrightarrow> 1 \<le> C"
  shows "download opts clock (TestDownloader_iface t) C N = Some (Inr (Data t))"
proof (cases "\<not> RangeSupport t \<or> int (length (Data t)) < C")
  case True
  then show ?thesis by (rule download_direct)
next
  case False
  have "N * C \<le> 31 * 31"
    using assms by (intro mult_mono) simp_all
  then have "int (length (Data t)) + N * C < 2 ^ 63"
    using assms(1) by simp
  with False assms show ?thesis
    by (intro download_parallel) simp_all
qed

theorem download_byte_exact_witness:
  "download test_opts test_clock (test_downloader ''abcdefghij'' False False) 0 1
     = Some (Inr ''abcdefghij'')
   \<and> download test_opts test_clock (test_downloader ''abcdefghij'' True False) 3 2
     = Some (Inr ''abcdefghij'')
   \<and> download test_opts test_clock (test_downloader ''abcdefghij'' True True) 3 2
     = Some (Inr ''abcdefghij'')"
  using
    download_byte_exact [of "\<lparr>Data = ''abcdefghij'', RangeSupport = False, MultipartSupport = False\<rparr>"
      0 1 test_opts test_clock]
    download_byte_exact [of "\<lparr>Data = ''abcdefghij'', RangeSupport = True, MultipartSupport = False\<rparr>"
      3 2 test_opts test_clock]
    download_byte_exact [of "\<lparr>Data = ''abcdefghij'', RangeSupport = True, MultipartSupport = True\<rparr>"
      3 2 test_opts test_clock]
  by (simp add: test_downloader_def)

text \<open>
  C2. Whenever the probe reports that range requests are unsupported, or reports a size
  \<open>S\<close> strictly smaller than the configured chunk size \<open>C\<close>, \<open>GetDownloadStream\<close> returns
  the adapter's full-object stream (\<open>downloader.Get()\<close>) directly, without spawning
  workers, and the bytes delivered equal the object's bytes: for every adapter the stream
  is \<open>Direct\<close>, the stream of \<open>Get\<close>, and not a pipe with goroutines; for the test
  adapter these bytes are its data.
\<close>

theorem probe_fallthrough:
  "(GetFileInfo d = Inr (sz, supportsRange, supportsMultipart)
      \<and> (\<not> supportsRange \<or> sz < chunkSize) \<and> Get d = Inr s \<longrightarrow>
        GetDownloadStream d chunkSize numWorkers = Inr (Direct s)
        \<and> download opts clock d chunkSize numWorkers = Some (Inr s))
   \<and> (\<not> RangeSupport t \<or> int (length (Data t)) < chunkSize \<longrightarrow>
        GetDownloadStream (TestDownloader_iface t) chunkSize numWorkers = Inr (Direct (Data t))
        \<and> download opts clock (TestDownloader_iface t) chunkSize numWorkers = Some (Inr (Data t)))"
  by (auto simp: download_def GetDownloadStream_def ReadAll_def TestDownloader_iface_def
      TestDownloader_GetFileInfo_def TestDownloader_Get_def)

theorem probe_fallthrough_witness:
  "GetDownloadStream (test_downloader ''a'' True True) 1048576 16 = Inr (Direct ''a'')
   \<and> download test_opts test_clock (test_downloader ''a'' True True) 1048576 16 = Some (Inr ''a'')
   \<and> GetDownloadStream (test_downloader ''abc'' False False) 2 16 = Inr (Direct ''abc'')
   \<and> download test_opts test_clock (test_downloader ''abc'' False False) 2 16 = Some (Inr ''abc'')"
  using
    probe_fallthrough [of "test_downloader ''a'' True True" 1 True True 1048576 "''a''" 16
      test_opts test_clock "\<lparr>Data = ''a'', RangeSupport = True, MultipartSupport = True\<rparr>"]
    probe_fallthrough [of "test_downloader ''abc'' False False" 3 False False 2 "''abc''" 16
      test_opts test_clock "\<lparr>Data = ''abc'', RangeSupport = False, MultipartSupport = False\<rparr>"]
  by (simp add: test_downloader_def TestDownloader_iface_def TestDownloader_GetFileInfo_def
      TestDownloader_Get_def)

subsection \<open>The probe of the HTTP adapter\<close>

text \<open>
  C10. The HTTP adapter's probe never reports multipart support: for every server
  response, \<open>GetFileInfo\<close> returns \<open>supports_multipart = false\<close> (and additionally returns
  \<open>supports_range = false\<close> whenever the reported content length is not strictly greater
  than the configured chunk size), so the engine never takes the multipart path for an
  HTTP source: every worker it launches is started without multipart support, and its
  chunk reader is not in multipart mode.
\<close>

theorem HttpDownloader_never_multipart:
  "(HttpDownloader_GetFileInfo lib opts d = Inr (sz, supportsRange, supportsMultipart) \<longrightarrow>
      \<not> supportsMultipart \<and> (\<not> ChunkSize opts < sz \<longrightarrow> \<not> supportsRange))
   \<and> (GetDownloadStream (HttpDownloader_iface lib opts d) chunkSize numWorkers = Inr (Pipe gs) \<longrightarrow>
        (\<forall>g \<in> set gs. \<not> arg_supportsMultipart g
           \<and> \<not> UseMultipart (NewReader (arg_size g) (arg_start g) (arg_chunkSize g)
                  (arg_numWorkers g) (arg_supportsMultipart g) (arg_downloader g))))"
proof -
  have 1: "\<not> supportsMultipart \<and> (\<not> ChunkSize opts < sz \<longrightarrow> \<not> supportsRange)"
    if "HttpDownloader_GetFileInfo lib opts d = Inr (sz, supportsRange, supportsMultipart)"
    using that by (auto simp: HttpDownloader_GetFileInfo_def split: sum.splits if_splits)
  have 2: "\<forall>g \<in> set gs. \<not> arg_supportsMultipart g
           \<and> \<not> UseMultipart (NewReader (arg_size g) (arg_start g) (arg_chunkSize g)
                  (arg_numWorkers g) (arg_supportsMultipart g) (arg_downloader g))"
    if "GetDownloadStream (HttpDownloader_iface lib opts d) chunkSize numWorkers = Inr (Pipe gs)"
    using that
    by (auto simp: GetDownloadStream_def HttpDownloader_iface_def HttpDownloader_GetFileInfo_def
        UseMultipart_def NewReader_def split: sum.splits if_splits)
  from 1 2 show ?thesis by blast
qed

lemma example_GetFileInfo:
  "HttpDownloader_GetFileInfo example_lib example_opts
     (scripted [Reply (reply 200 2000000 ''bytes'')]) = Inr (2000000, True, False)"
  by (simp add: HttpDownloader_GetFileInfo_def generateRequest_def example_lib_def
      retryHttpRequest_def retry_Do.simps retryHttpRequest_config_def uint_def example_opts_def
      scripted_def reply_def retryHttpRequest_func_def)

theorem HttpDownloader_never_multipart_witness:
  "HttpDownloader_GetFileInfo example_lib example_opts
     (scripted [Reply (reply 200 2000000 ''bytes'')]) = Inr (2000000, True, False)
   \<and> (case GetDownloadStream (HttpDownloader_iface example_lib example_opts
               (scripted [Reply (reply 200 2000000 ''bytes'')])) 1000000 2 of
         Inr (Pipe gs) \<Rightarrow> map arg_supportsMultipart gs
       | _ \<Rightarrow> []) = [False, False]"
proof -
  define d where "d = scripted [Reply (reply 200 2000000 ''bytes'')]"
  define gs where "gs = (case GetDownloadStream (HttpDownloader_iface example_lib example_opts d)
                           1000000 2 of Inr (Pipe gs) \<Rightarrow> gs | _ \<Rightarrow> [])"
  have g: "GetDownloadStream (HttpDownloader_iface example_lib example_opts d) 1000000 2
           = Inr (Pipe gs)" and l: "length gs = 2"
    by (simp_all add: gs_def GetDownloadStream_def HttpDownloader_iface_def
        example_GetFileInfo [folded d_def])
  from HttpDownloader_never_multipart [of example_lib example_opts d 2000000 True False 1000000 2 gs]
    example_GetFileInfo [folded d_def] g
  have "\<forall>g \<in> set gs. \<not> arg_supportsMultipart g" by simp
  then have "map arg_supportsMultipart gs = replicate (length gs) False"
    by (induction gs) simp_all
  with l have "map arg_supportsMultipart gs = [False, False]"
    by (simp add: numeral_2_eq_2)
  then show ?thesis
    using example_GetFileInfo g by (simp add: d_def [symmetric])
qed

subsection \<open>Passing the token, closing the pipe\<close>
















subsection \<open>The reader activity\<close>



subsection \<open>Errors during extraction\<close>

lemma clean_snoc: "clean (tr @ [(c, e)]) \<longleftrightarrow> clean tr \<and> (fatal_call c \<longrightarrow> e = Ok)"
  by (auto simp: clean_def)

lemma clean_Nil: "clean []"
  by (simp add: clean_def)

lemma clean_Cons: "clean ((c, e) # tr) \<longleftrightarrow> (fatal_call c \<longrightarrow> e = Ok) \<and> clean tr"
  by (auto simp: clean_def)

lemma clean_append: "clean (a @ b) \<longleftrightarrow> clean a \<and> clean b"
  by (auto simp: clean_def)

lemma sound_clean: "clean tr \<Longrightarrow> sound (tr, res)"
  by (simp add: sound_def)

lemma sound_fatal: "clean tr \<Longrightarrow> fatal_call c \<Longrightarrow> e \<noteq> Ok \<Longrightarrow> sound (tr @ [(c, e)], Some LogFatal)"
  by (simp add: sound_def fatal_end_def)

lemma sys_eq: "sys os tr c = (e, tr') \<Longrightarrow> tr' = tr @ [(c, e)]"
  by (auto simp: sys_def Let_def)

lemma sys_ignored: "clean tr \<Longrightarrow> \<not> fatal_call c \<Longrightarrow> clean (snd (sys os tr c))"
  by (simp add: sys_def Let_def clean_snoc)

lemma overwrite_clean:
  assumes "clean tr" "\<not> fatal_call probe"
  shows "clean (if overwrite fl then
                   (case sys os tr probe of
                      (e, t) \<Rightarrow> if e = Ok then snd (sys os t (Remove p)) else t)
                 else tr)"
  using assms by (auto simp: sys_def Let_def clean_append clean_Cons clean_Nil)

lemma checked_call:
  assumes "clean tr" "sys os tr c = (e, tr')" "fatal_call c"
    and "e = Ok \<Longrightarrow> clean tr' \<Longrightarrow> sound run"
  shows "sound (if e \<noteq> Ok then (tr', Some LogFatal) else run)"
proof (cases "e = Ok")
  case True
  with assms show ?thesis by (simp add: sys_eq [OF assms(2)] clean_snoc)
next
  case False
  with assms show ?thesis by (simp add: sys_eq [OF assms(2)] sound_fatal)
qed

lemma writeFileAsync_sound:
  assumes "clean tr"
  shows "sound (writeFileAsync fl os tr filename bytes header)"
proof -
  define tr1 where "tr1 = (if overwrite fl then
                   (case sys os tr (Stat filename) of
                      (e, t) \<Rightarrow> if e = Ok then snd (sys os t (Remove filename)) else t)
                 else tr)"
  have c1: "clean tr1" unfolding tr1_def using assms by (intro overwrite_clean) simp_all
  obtain e2 tr2 where s2: "sys os tr1 (OpenFile filename (Mode header)) = (e2, tr2)"
    by (cases "sys os tr1 (OpenFile filename (Mode header))")
  obtain e3 tr3 where s3: "sys os tr2 (Copy filename bytes) = (e3, tr3)"
    by (cases "sys os tr2 (Copy filename bytes)")
  have "sound (if e2 \<noteq> Ok then (tr2, Some LogFatal)
               else if e3 \<noteq> Ok then (tr3, Some LogFatal)
               else (snd (sys os (snd (sys os (snd (sys os tr3 (FileClose filename)))
                        (Chown filename (Uid header) (Gid header))))
                        (Chmod filename (Mode header))), None))"
  proof (rule checked_call [OF c1 s2])
    assume "clean tr2"
    then show "sound (if e3 \<noteq> Ok then (tr3, Some LogFatal)
               else (snd (sys os (snd (sys os (snd (sys os tr3 (FileClose filename)))
                        (Chown filename (Uid header) (Gid header))))
                        (Chmod filename (Mode header))), None))"
    proof (rule checked_call [OF _ s3])
      assume "clean tr3"
      then show "sound (snd (sys os (snd (sys os (snd (sys os tr3 (FileClose filename)))
                        (Chown filename (Uid header) (Gid header))))
                        (Chmod filename (Mode header))), None)"
        by (intro sound_clean sys_ignored) simp_all
    qed simp
  qed simp
  moreover have "writeFileAsync fl os tr filename bytes header =
              (if e2 \<noteq> Ok then (tr2, Some LogFatal)
               else if e3 \<noteq> Ok then (tr3, Some LogFatal)
               else (snd (sys os (snd (sys os (snd (sys os tr3 (FileClose filename)))
                        (Chown filename (Uid header) (Gid header))))
                        (Chmod filename (Mode header))), None))"
    by (simp add: writeFileAsync_def tr1_def [symmetric] s2 s3 Let_def)
  ultimately show ?thesis by (simp only:)
qed

lemma hardLink_sound:
  assumes "clean tr"
  shows "sound (hardLink fl os tr newPath path header)"
proof -
  define tr1 where "tr1 = (if overwrite fl then
                   (case sys os tr (Stat path) of
                      (e, t) \<Rightarrow> if e = Ok then snd (sys os t (Remove path)) else t)
                 else tr)"
  have c1: "clean tr1" unfolding tr1_def using assms by (intro overwrite_clean) simp_all
  obtain e2 tr2 where s2: "sys os tr1 (Link newPath path) = (e2, tr2)"
    by (cases "sys os tr1 (Link newPath path)")
  have "sound (if e2 \<noteq> Ok then (tr2, Some LogFatal)
               else (snd (sys os tr2 (Chown path (Uid header) (Gid header))), None))"
  proof (rule checked_call [OF c1 s2])
    assume "clean tr2"
    then show "sound (snd (sys os tr2 (Chown path (Uid header) (Gid header))), None)"
      by (intro sound_clean sys_ignored) simp_all
  qed simp
  moreover have "hardLink fl os tr newPath path header =
              (if e2 \<noteq> Ok then (tr2, Some LogFatal)
               else (snd (sys os tr2 (Chown path (Uid header) (Gid header))), None))"
    by (simp add: hardLink_def tr1_def [symmetric] s2 Let_def)
  ultimately show ?thesis by (simp only:)
qed

lemma switch_sound:
  assumes "clean tr2"
  shows "sound
    (case Typeflag header of
       TypeDir \<Rightarrow>
         (case sys os tr2 (MkdirAll path (Mode header)) of
            (e, tr3) \<Rightarrow>
              if e \<noteq> Ok then (tr3, Some LogFatal)
              else
                let tr4 = snd (sys os tr3 (Chmod path (Mode header)));
                    tr5 = snd (sys os tr4 (Chown path (Uid header) (Gid header)))
                in (tr5, None))
     | TypeReg \<Rightarrow>
         (case contents of
            None \<Rightarrow> (tr2, Some LogFatal)
          | Some bytes \<Rightarrow>
              if writeWorkers fl = 0 then (tr2, Some Blocked)
              else writeFileAsync fl os tr2 path bytes header)
     | TypeLink \<Rightarrow>
         hardLink fl os tr2 (filepath_Join lib [outputDir fl, linkName]) path header
     | TypeSymlink \<Rightarrow>
         (let tr3 = (if overwrite fl then
                       (case sys os tr2 (Lstat path) of
                          (e, t) \<Rightarrow>
                            if e = Ok then snd (sys os t (Remove path)) else t)
                     else tr2)
          in case sys os tr3 (Symlink linkName path) of
               (e, tr4) \<Rightarrow>
                 if e \<noteq> Ok then (tr4, Some LogFatal)
                 else (snd (sys os tr4 (Lchown path (Uid header) (Gid header))), None))
     | TypeOther \<Rightarrow>
         if ignoreNodeFiles fl then (tr2, None) else (tr2, Some LogFatal))"
proof (cases "Typeflag header")
  case TypeDir
  obtain e tr3 where s: "sys os tr2 (MkdirAll path (Mode header)) = (e, tr3)"
    by (cases "sys os tr2 (MkdirAll path (Mode header))")
  have "sound (if e \<noteq> Ok then (tr3, Some LogFatal)
               else (snd (sys os (snd (sys os tr3 (Chmod path (Mode header))))
                       (Chown path (Uid header) (Gid header))), None))"
  proof (rule checked_call [OF assms s])
    assume "clean tr3"
    then show "sound (snd (sys os (snd (sys os tr3 (Chmod path (Mode header))))
                       (Chown path (Uid header) (Gid header))), None)"
      by (intro sound_clean sys_ignored) simp_all
  qed simp
  moreover have "(case sys os tr2 (MkdirAll path (Mode header)) of
            (e, tr3) \<Rightarrow>
              if e \<noteq> Ok then (tr3, Some LogFatal)
              else
                let tr4 = snd (sys os tr3 (Chmod path (Mode header)));
                    tr5 = snd (sys os tr4 (Chown path (Uid header) (Gid header)))
                in (tr5, None)) =
           (if e \<noteq> Ok then (tr3, Some LogFatal)
               else (snd (sys os (snd (sys os tr3 (Chmod path (Mode header))))
                       (Chown path (Uid header) (Gid header))), None))"
    by (simp add: s Let_def)
  ultimately show ?thesis by (simp only: TypeDir typeflag.case)
next
  case TypeReg
  then show ?thesis
    using assms by (simp add: sound_clean writeFileAsync_sound split: option.splits)
next
  case TypeLink
  then show ?thesis using assms by (simp add: hardLink_sound)
next
  case TypeSymlink
  define tr3 where "tr3 = (if overwrite fl then
                       (case sys os tr2 (Lstat path) of
                          (e, t) \<Rightarrow>
                            if e = Ok then snd (sys os t (Remove path)) else t)
                     else tr2)"
  have c3: "clean tr3" unfolding tr3_def using assms by (intro overwrite_clean) simp_all
  obtain e tr4 where s: "sys os tr3 (Symlink linkName path) = (e, tr4)"
    by (cases "sys os tr3 (Symlink linkName path)")
  have "sound (if e \<noteq> Ok then (tr4, Some LogFatal)
               else (snd (sys os tr4 (Lchown path (Uid header) (Gid header))), None))"
  proof (rule checked_call [OF c3 s])
    assume "clean tr4"
    then show "sound (snd (sys os tr4 (Lchown path (Uid header) (Gid header))), None)"
      by (intro sound_clean sys_ignored) simp_all
  qed simp
  moreover have "(let tr3 = (if overwrite fl then
                       (case sys os tr2 (Lstat path) of
                          (e, t) \<Rightarrow>
                            if e = Ok then snd (sys os t (Remove path)) else t)
                     else tr2)
          in case sys os tr3 (Symlink linkName path) of
               (e, tr4) \<Rightarrow>
                 if e \<noteq> Ok then (tr4, Some LogFatal)
                 else (snd (sys os tr4 (Lchown path (Uid header) (Gid header))), None)) =
            (if e \<noteq> Ok then (tr4, Some LogFatal)
               else (snd (sys os tr4 (Lchown path (Uid header) (Gid header))), None))"
    by (simp add: tr3_def [symmetric] s Let_def)
  ultimately show ?thesis by (simp only: TypeSymlink typeflag.case)
next
  case TypeOther
  then show ?thesis using assms by (simp add: sound_clean)
qed

lemma extractEntry_sound:
  assumes "clean tr"
  shows "sound (extractEntry lib fl os tr header contents)"
proof -
  let ?n = "if stripComponents fl \<noteq> 0 then stripped lib fl (Name header) else Inr (Name header)"
  let ?l = "if stripComponents fl \<noteq> 0 \<and> Linkname header \<noteq> ''''
            then stripped lib fl (Linkname header) else Inr (Linkname header)"
  show ?thesis
  proof (cases ?n)
    case (Inl a)
    then show ?thesis using assms by (simp add: extractEntry_def sound_clean)
  next
    case n: (Inr name)
    show ?thesis
    proof (cases ?l)
      case (Inl a)
      then show ?thesis using assms n by (simp add: extractEntry_def sound_clean)
    next
      case l: (Inr linkName)
      show ?thesis
      proof (cases "name = ''''")
        case True
        then show ?thesis using assms n l by (simp add: extractEntry_def sound_clean)
      next
        case False
        define path where "path = filepath_Join lib [outputDir fl, name]"
        define pathDir where "pathDir = filepath_Dir lib path"
        obtain e1 tr1 where s1: "sys os tr (Stat pathDir) = (e1, tr1)"
          by (cases "sys os tr (Stat pathDir)")
        have c1: "clean tr1" using sys_ignored [of tr "Stat pathDir" os] assms s1 by simp
        obtain e2 tr2 where s2:
          "(if e1 = NotExist then sys os tr1 (MkdirAll pathDir 493) else (Ok, tr1)) = (e2, tr2)"
          by (cases "if e1 = NotExist then sys os tr1 (MkdirAll pathDir 493) else (Ok, tr1)")
        define rest where "rest = (case Typeflag header of
             TypeDir \<Rightarrow>
               (case sys os tr2 (MkdirAll path (Mode header)) of
                  (e, tr3) \<Rightarrow>
                    if e \<noteq> Ok then (tr3, Some LogFatal)
                    else
                      let tr4 = snd (sys os tr3 (Chmod path (Mode header)));
                          tr5 = snd (sys os tr4 (Chown path (Uid header) (Gid header)))
                      in (tr5, None))
           | TypeReg \<Rightarrow>
               (case contents of
                  None \<Rightarrow> (tr2, Some LogFatal)
                | Some bytes \<Rightarrow>
                    if writeWorkers fl = 0 then (tr2, Some Blocked)
                    else writeFileAsync fl os tr2 path bytes header)
           | TypeLink \<Rightarrow>
               hardLink fl os tr2 (filepath_Join lib [outputDir fl, linkName]) path header
           | TypeSymlink \<Rightarrow>
               (let tr3 = (if overwrite fl then
                             (case sys os tr2 (Lstat path) of
                                (e, t) \<Rightarrow>
                                  if e = Ok then snd (sys os t (Remove path)) else t)
                           else tr2)
                in case sys os tr3 (Symlink linkName path) of
                     (e, tr4) \<Rightarrow>
                       if e \<noteq> Ok then (tr4, Some LogFatal)
                       else (snd (sys os tr4 (Lchown path (Uid header) (Gid header))), None))
           | TypeOther \<Rightarrow>
               if ignoreNodeFiles fl then (tr2, None) else (tr2, Some LogFatal))"
        have r: "clean tr2 \<Longrightarrow> sound rest" unfolding rest_def by (rule switch_sound)
        have "sound (if e2 \<noteq> Ok then (tr2, Some LogFatal) else rest)"
        proof (cases "e1 = NotExist")
          case True
          with s2 have "sys os tr1 (MkdirAll pathDir 493) = (e2, tr2)" by simp
          from checked_call [OF c1 this _ r] show ?thesis by simp
        next
          case False
          with s2 have "e2 = Ok" "tr2 = tr1" by simp_all
          with r c1 show ?thesis by simp
        qed
        moreover have "extractEntry lib fl os tr header contents
                       = (case (if e1 = NotExist then sys os tr1 (MkdirAll pathDir 493) else (Ok, tr1)) of
                            (e2, tr2) \<Rightarrow> if e2 \<noteq> Ok then (tr2, Some LogFatal) else
                              (case Typeflag header of
             TypeDir \<Rightarrow>
               (case sys os tr2 (MkdirAll path (Mode header)) of
                  (e, tr3) \<Rightarrow>
                    if e \<noteq> Ok then (tr3, Some LogFatal)
                    else
                      let tr4 = snd (sys os tr3 (Chmod path (Mode header)));
                          tr5 = snd (sys os tr4 (Chown path (Uid header) (Gid header)))
                      in (tr5, None))
           | TypeReg \<Rightarrow>
               (case contents of
                  None \<Rightarrow> (tr2, Some LogFatal)
                | Some bytes \<Rightarrow>
                    if writeWorkers fl = 0 then (tr2, Some Blocked)
                    else writeFileAsync fl os tr2 path bytes header)
           | TypeLink \<Rightarrow>
               hardLink fl os tr2 (filepath_Join lib [outputDir fl, linkName]) path header
           | TypeSymlink \<Rightarrow>
               (let tr3 = (if overwrite fl then
                             (case sys os tr2 (Lstat path) of
                                (e, t) \<Rightarrow>
                                  if e = Ok then snd (sys os t (Remove path)) else t)
                           else tr2)
                in case sys os tr3 (Symlink linkName path) of
                     (e, tr4) \<Rightarrow>
                       if e \<noteq> Ok then (tr4, Some LogFatal)
                       else (snd (sys os tr4 (Lchown path (Uid header) (Gid header))), None))
           | TypeOther \<Rightarrow>
               if ignoreNodeFiles fl then (tr2, None) else (tr2, Some LogFatal)))"
          unfolding extractEntry_def n l sum.case Let_def path_def [symmetric] pathDir_def [symmetric]
            s1 prod.case
          using False by (simp only: if_False)
        then have "extractEntry lib fl os tr header contents
                       = (if e2 \<noteq> Ok then (tr2, Some LogFatal) else rest)"
          unfolding s2 prod.case rest_def .
        ultimately show ?thesis by (simp only:)
      qed
    qed
  qed
qed

lemma sound_None: "sound (tr, None) \<Longrightarrow> clean tr"
  by (auto simp: sound_def fatal_end_def)

lemma ExtractTar_loop_sound:
  "clean tr \<Longrightarrow> sound (ExtractTar_loop lib fl os archive tr)"
proof (induction lib fl os archive tr rule: ExtractTar_loop.induct)
  case (1 lib fl os tr)
  then show ?case by (simp add: sound_clean)
next
  case (2 lib fl os rest tr)
  then show ?case by (simp add: sound_clean)
next
  case (3 lib fl os header contents rest tr)
  obtain tr' res where e: "extractEntry lib fl os tr header contents = (tr', res)"
    by (cases "extractEntry lib fl os tr header contents")
  have s: "sound (tr', res)" using extractEntry_sound [OF "3.prems", of lib fl os header contents] e
    by simp
  show ?case
  proof (cases res)
    case None
    with s have "clean tr'" by (simp add: sound_None)
    with "3.IH" e None show ?thesis by auto
  next
    case (Some a)
    with s e show ?thesis by simp
  qed
qed

lemma sys_permissive:
  assumes "map fst tr = map fst tr'"
  shows "map fst (snd (sys (permissive os) tr' c)) = map fst (snd (sys os tr c))"
    and "\<not> perm_call c \<Longrightarrow> fst (sys (permissive os) tr' c) = fst (sys os tr c)"
  using assms by (simp_all add: sys_def Let_def permissive_def)

lemma overwrite_permissive:
  assumes "map fst tr = map fst tr'" "\<not> perm_call probe"
  shows "map fst (if overwrite fl then
                   (case sys (permissive os) tr' probe of
                      (e, t) \<Rightarrow> if e = Ok then snd (sys (permissive os) t (Remove p)) else t)
                 else tr')
         = map fst (if overwrite fl then
                   (case sys os tr probe of
                      (e, t) \<Rightarrow> if e = Ok then snd (sys os t (Remove p)) else t)
                 else tr)"
  using assms by (auto simp: sys_def Let_def permissive_def)

lemma writeFileAsync_permissive:
  assumes "map fst tr = map fst tr'"
  shows "agree (writeFileAsync fl os tr filename bytes header)
               (writeFileAsync fl (permissive os) tr' filename bytes header)"
proof -
  define a where "a = (if overwrite fl then
                   (case sys os tr (Stat filename) of
                      (e, t) \<Rightarrow> if e = Ok then snd (sys os t (Remove filename)) else t)
                 else tr)"
  define a' where "a' = (if overwrite fl then
                   (case sys (permissive os) tr' (Stat filename) of
                      (e, t) \<Rightarrow> if e = Ok then snd (sys (permissive os) t (Remove filename)) else t)
                 else tr')"
  have aa: "map fst a' = map fst a"
    unfolding a_def a'_def using assms by (intro overwrite_permissive) simp_all
  show ?thesis
    unfolding writeFileAsync_def a_def [symmetric] a'_def [symmetric]
    using aa by (simp add: agree_def sys_def Let_def permissive_def)
qed

lemma hardLink_permissive:
  assumes "map fst tr = map fst tr'"
  shows "agree (hardLink fl os tr newPath path header)
               (hardLink fl (permissive os) tr' newPath path header)"
proof -
  define a where "a = (if overwrite fl then
                   (case sys os tr (Stat path) of
                      (e, t) \<Rightarrow> if e = Ok then snd (sys os t (Remove path)) else t)
                 else tr)"
  define a' where "a' = (if overwrite fl then
                   (case sys (permissive os) tr' (Stat path) of
                      (e, t) \<Rightarrow> if e = Ok then snd (sys (permissive os) t (Remove path)) else t)
                 else tr')"
  have aa: "map fst a' = map fst a"
    unfolding a_def a'_def using assms by (intro overwrite_permissive) simp_all
  show ?thesis
    unfolding hardLink_def a_def [symmetric] a'_def [symmetric]
    using aa by (simp add: agree_def sys_def Let_def permissive_def)
qed

lemma extractEntry_permissive:
  assumes "map fst tr = map fst tr'"
  shows "agree (extractEntry lib fl os tr header contents)
               (extractEntry lib fl (permissive os) tr' header contents)"
proof -
  let ?n = "if stripComponents fl \<noteq> 0 then stripped lib fl (Name header) else Inr (Name header)"
  let ?l = "if stripComponents fl \<noteq> 0 \<and> Linkname header \<noteq> ''''
            then stripped lib fl (Linkname header) else Inr (Linkname header)"
  show ?thesis
  proof (cases ?n)
    case (Inl a)
    then show ?thesis using assms by (simp add: extractEntry_def agree_def)
  next
    case n: (Inr name)
    show ?thesis
    proof (cases ?l)
      case (Inl a)
      then show ?thesis using assms n by (simp add: extractEntry_def agree_def)
    next
      case l: (Inr linkName)
      show ?thesis
      proof (cases "name = ''''")
        case True
        then show ?thesis using assms n l by (simp add: extractEntry_def agree_def)
      next
        case False
        define path where "path = filepath_Join lib [outputDir fl, name]"
        define pathDir where "pathDir = filepath_Dir lib path"
        obtain e1 tr1 where s1: "sys os tr (Stat pathDir) = (e1, tr1)"
          by (cases "sys os tr (Stat pathDir)")
        obtain e1' tr1' where s1': "sys (permissive os) tr' (Stat pathDir) = (e1', tr1')"
          by (cases "sys (permissive os) tr' (Stat pathDir)")
        have a1: "e1' = e1" "map fst tr1 = map fst tr1'"
          using sys_permissive [OF assms, where os = os and c = "Stat pathDir"] s1 s1' by simp_all
        obtain e2 tr2 where s2:
          "(if e1 = NotExist then sys os tr1 (MkdirAll pathDir 493) else (Ok, tr1)) = (e2, tr2)"
          by (cases "if e1 = NotExist then sys os tr1 (MkdirAll pathDir 493) else (Ok, tr1)")
        obtain e2' tr2' where s2':
          "(if e1 = NotExist then sys (permissive os) tr1' (MkdirAll pathDir 493) else (Ok, tr1'))
           = (e2', tr2')"
          by (cases "if e1 = NotExist then sys (permissive os) tr1' (MkdirAll pathDir 493) else (Ok, tr1')")
        have a2: "e2' = e2" "map fst tr2 = map fst tr2'"
          using sys_permissive [OF a1(2), where os = os and c = "MkdirAll pathDir 493"] s2 s2' a1(2)
          by (auto split: if_splits)
        have sw: "agree
          (case Typeflag header of
             TypeDir \<Rightarrow>
               (case sys os tr2 (MkdirAll path (Mode header)) of
                  (e, tr3) \<Rightarrow>
                    if e \<noteq> Ok then (tr3, Some LogFatal)
                    else
                      let tr4 = snd (sys os tr3 (Chmod path (Mode header)));
                          tr5 = snd (sys os tr4 (Chown path (Uid header) (Gid header)))
                      in (tr5, None))
           | TypeReg \<Rightarrow>
               (case contents of
                  None \<Rightarrow> (tr2, Some LogFatal)
                | Some bytes \<Rightarrow>
                    if writeWorkers fl = 0 then (tr2, Some Blocked)
                    else writeFileAsync fl os tr2 path bytes header)
           | TypeLink \<Rightarrow>
               hardLink fl os tr2 (filepath_Join lib [outputDir fl, linkName]) path header
           | TypeSymlink \<Rightarrow>
               (let tr3 = (if overwrite fl then
                             (case sys os tr2 (Lstat path) of
                                (e, t) \<Rightarrow>
                                  if e = Ok then snd (sys os t (Remove path)) else t)
                           else tr2)
                in case sys os tr3 (Symlink linkName path) of
                     (e, tr4) \<Rightarrow>
                       if e \<noteq> Ok then (tr4, Some LogFatal)
                       else (snd (sys os tr4 (Lchown path (Uid header) (Gid header))), None))
           | TypeOther \<Rightarrow>
               if ignoreNodeFiles fl then (tr2, None) else (tr2, Some LogFatal))
          (case Typeflag header of
             TypeDir \<Rightarrow>
               (case sys (permissive os) tr2' (MkdirAll path (Mode header)) of
                  (e, tr3) \<Rightarrow>
                    if e \<noteq> Ok then (tr3, Some LogFatal)
                    else
                      let tr4 = snd (sys (permissive os) tr3 (Chmod path (Mode header)));
                          tr5 = snd (sys (permissive os) tr4 (Chown path (Uid header) (Gid header)))
                      in (tr5, None))
           | TypeReg \<Rightarrow>
               (case contents of
                  None \<Rightarrow> (tr2', Some LogFatal)
                | Some bytes \<Rightarrow>
                    if writeWorkers fl = 0 then (tr2', Some Blocked)
                    else writeFileAsync fl (permissive os) tr2' path bytes header)
           | TypeLink \<Rightarrow>
               hardLink fl (permissive os) tr2' (filepath_Join lib [outputDir fl, linkName]) path header
           | TypeSymlink \<Rightarrow>
               (let tr3 = (if overwrite fl then
                             (case sys (permissive os) tr2' (Lstat path) of
                                (e, t) \<Rightarrow>
                                  if e = Ok then snd (sys (permissive os) t (Remove path)) else t)
                           else tr2')
                in case sys (permissive os) tr3 (Symlink linkName path) of
                     (e, tr4) \<Rightarrow>
                       if e \<noteq> Ok then (tr4, Some LogFatal)
                       else (snd (sys (permissive os) tr4 (Lchown path (Uid header) (Gid header))), None))
           | TypeOther \<Rightarrow>
               if ignoreNodeFiles fl then (tr2', None) else (tr2', Some LogFatal))"
        proof (cases "Typeflag header")
          case TypeDir
          then show ?thesis using a2(2)
            by (simp add: agree_def sys_def Let_def permissive_def)
        next
          case TypeReg
          then show ?thesis using a2(2) writeFileAsync_permissive [OF a2(2)]
            by (simp add: agree_def split: option.splits)
        next
          case TypeLink
          then show ?thesis using hardLink_permissive [OF a2(2)] by simp
        next
          case TypeSymlink
          define a where "a = (if overwrite fl then
                             (case sys os tr2 (Lstat path) of
                                (e, t) \<Rightarrow>
                                  if e = Ok then snd (sys os t (Remove path)) else t)
                           else tr2)"
          define a' where "a' = (if overwrite fl then
                             (case sys (permissive os) tr2' (Lstat path) of
                                (e, t) \<Rightarrow>
                                  if e = Ok then snd (sys (permissive os) t (Remove path)) else t)
                           else tr2')"
          have aa: "map fst a' = map fst a"
            unfolding a_def a'_def using a2(2) by (intro overwrite_permissive) simp_all
          show ?thesis
            unfolding TypeSymlink typeflag.case a_def [symmetric] a'_def [symmetric]
            using aa by (simp add: agree_def sys_def Let_def permissive_def)
        next
          case TypeOther
          then show ?thesis using a2(2) by (simp add: agree_def)
        qed
        have u: "extractEntry lib fl os tr header contents
                  = (case (e2, tr2) of (e2, tr2) \<Rightarrow> if e2 \<noteq> Ok then (tr2, Some LogFatal) else
           (case Typeflag header of
             TypeDir \<Rightarrow>
               (case sys os tr2 (MkdirAll path (Mode header)) of
                  (e, tr3) \<Rightarrow>
                    if e \<noteq> Ok then (tr3, Some LogFatal)
                    else
                      let tr4 = snd (sys os tr3 (Chmod path (Mode header)));
                          tr5 = snd (sys os tr4 (Chown path (Uid header) (Gid header)))
                      in (tr5, None))
           | TypeReg \<Rightarrow>
               (case contents of
                  None \<Rightarrow> (tr2, Some LogFatal)
                | Some bytes \<Rightarrow>
                    if writeWorkers fl = 0 then (tr2, Some Blocked)
                    else writeFileAsync fl os tr2 path bytes header)
           | TypeLink \<Rightarrow>
               hardLink fl os tr2 (filepath_Join lib [outputDir fl, linkName]) path header
           | TypeSymlink \<Rightarrow>
               (let tr3 = (if overwrite fl then
                             (case sys os tr2 (Lstat path) of
                                (e, t) \<Rightarrow>
                                  if e = Ok then snd (sys os t (Remove path)) else t)
                           else tr2)
                in case sys os tr3 (Symlink linkName path) of
                     (e, tr4) \<Rightarrow>
                       if e \<noteq> Ok then (tr4, Some LogFatal)
                       else (snd (sys os tr4 (Lchown path (Uid header) (Gid header))), None))
           | TypeOther \<Rightarrow>
               if ignoreNodeFiles fl then (tr2, None) else (tr2, Some LogFatal)))"
          if "sys os tr (Stat pathDir) = (e1, tr1)"
            and "(if e1 = NotExist then sys os tr1 (MkdirAll pathDir 493) else (Ok, tr1)) = (e2, tr2)"
          for os tr e1 tr1 e2 tr2
          unfolding extractEntry_def n l sum.case Let_def path_def [symmetric] pathDir_def [symmetric]
            that(1) prod.case that(2) [symmetric]
          using False by (simp only: if_False)
        show ?thesis
          unfolding u [OF s1 s2] u [OF s1' s2' [folded a1(1)]] prod.case a2(1)
          using sw a2(2) by (simp add: agree_def)
      qed
    qed
  qed
qed

lemma ExtractTar_loop_permissive:
  "map fst tr = map fst tr' \<Longrightarrow>
   agree (ExtractTar_loop lib fl os archive tr) (ExtractTar_loop lib fl (permissive os) archive tr')"
proof (induction archive arbitrary: tr tr')
  case Nil
  then show ?case by (simp add: agree_def)
next
  case (Cons x archive)
  show ?case
  proof (cases x)
    case NextErr
    with Cons.prems show ?thesis by (simp add: agree_def)
  next
    case (Next header contents)
    obtain t res where e: "extractEntry lib fl os tr header contents = (t, res)"
      by (cases "extractEntry lib fl os tr header contents")
    obtain t' res' where e': "extractEntry lib fl (permissive os) tr' header contents = (t', res')"
      by (cases "extractEntry lib fl (permissive os) tr' header contents")
    from extractEntry_permissive [OF Cons.prems, of lib fl os header contents] e e'
    have a: "map fst t = map fst t'" "res' = res" by (simp_all add: agree_def)
    show ?thesis
    proof (cases res)
      case None
      with Next e e' a Cons.IH [OF a(1)] show ?thesis by simp
    next
      case (Some b)
      with Next e e' a show ?thesis by (simp add: agree_def)
    qed
  qed
qed

text \<open>
  C9 as the code has it.  The claim: every mkdir, open, copy, chown, symlink, or link
  error occurring during tar extraction aborts the process (is fatal); in particular, a
  failure to set owner (chown) or mode (chmod) on an extracted directory, regular file, or
  symlink causes a fatal abort rather than being ignored.  The source drops the results
  of \<open>os.Chmod\<close>, \<open>os.Chown\<close> and \<open>os.Lchown\<close> everywhere: with every change of owner
  failing, the extraction of a directory and a file in it runs to its end.
\<close>

theorem chown_failure_counterexample:
  "snd (ExtractTar example_paths example_flags unprivileged example_archive) = None
   \<and> (Chown ''out/d'' 0 0, Failed)
        \<in> set (fst (ExtractTar example_paths example_flags unprivileged example_archive))
   \<and> (Chown ''out/d/f'' 0 0, Failed)
        \<in> set (fst (ExtractTar example_paths example_flags unprivileged example_archive))"
  by code_simp

text \<open>
  C9, amended: every mkdir, open, copy, symlink, or link error occurring during tar
  extraction aborts the process (is fatal); a failure to set owner (chown) or mode
  (chmod) on an extracted directory, regular file, hard link or symlink is ignored.

  For every run of \<open>ExtractTar\<close>: when it returns, no call of the fatal class has failed;
  a failed call of that class is the last call of the run, which then ends in
  \<open>log.Fatal\<close>; and the run makes the same calls and ends the same way as in the
  environment in which setting owner and mode always succeeds.
\<close>

theorem local_io_errors:
  "ExtractTar lib fl os archive = (tr, res) \<longrightarrow>
     (res = None \<longrightarrow> clean tr)
     \<and> (\<forall>c e. (c, e) \<in> set tr \<and> fatal_call c \<and> e \<noteq> Ok \<longrightarrow>
            res = Some LogFatal \<and> last tr = (c, e))
     \<and> agree (ExtractTar lib fl os archive) (ExtractTar lib fl (permissive os) archive)"
proof (intro impI conjI allI)
  assume run: "ExtractTar lib fl os archive = (tr, res)"
  have s: "sound (tr, res)"
  proof (cases "writeWorkers fl < 0")
    case True
    with run show ?thesis by (auto simp: ExtractTar_def intro: sound_clean clean_Nil)
  next
    case False
    with run ExtractTar_loop_sound [OF clean_Nil, of lib fl os archive] show ?thesis
      by (simp add: ExtractTar_def)
  qed
  show "clean tr" if "res = None"
    using s that by (simp add: sound_None)
  show "res = Some LogFatal" and "last tr = (c, e)"
    if f: "(c, e) \<in> set tr \<and> fatal_call c \<and> e \<noteq> Ok" for c e
  proof -
    from f have nc: "\<not> clean tr" by (auto simp: clean_def)
    with s have fe: "fatal_end (tr, res)" by (simp add: sound_def)
    then show "res = Some LogFatal" by (simp add: fatal_end_def)
    from fe have ne: "tr \<noteq> []" and cb: "clean (butlast tr)" by (simp_all add: fatal_end_def)
    from f cb have "(c, e) \<notin> set (butlast tr)" by (auto simp: clean_def)
    moreover from ne have "set tr = set (butlast tr) \<union> {last tr}"
      by (metis append_butlast_last_id list.set(1) list.simps(15) set_append Un_insert_right
          sup_bot.right_neutral)
    ultimately show "last tr = (c, e)" using f by auto
  qed
  show "agree (ExtractTar lib fl os archive) (ExtractTar lib fl (permissive os) archive)"
    using ExtractTar_loop_permissive [of "[]" "[]" lib fl os archive]
    by (simp add: ExtractTar_def agree_def)
qed

theorem local_io_errors_witness:
  "snd (ExtractTar example_paths example_flags read_only example_archive) = Some LogFatal
   \<and> last (fst (ExtractTar example_paths example_flags read_only example_archive))
       = (OpenFile ''out/d/f'' 420, Failed)
   \<and> clean (fst (ExtractTar example_paths example_flags unprivileged example_archive))
   \<and> agree (ExtractTar example_paths example_flags unprivileged example_archive)
            (ExtractTar example_paths example_flags (permissive unprivileged) example_archive)"
proof -
  obtain tr res where e: "ExtractTar example_paths example_flags read_only example_archive = (tr, res)"
    by (cases "ExtractTar example_paths example_flags read_only example_archive")
  have "(OpenFile ''out/d/f'' 420, Failed)
          \<in> set (fst (ExtractTar example_paths example_flags read_only example_archive))"
    by code_simp
  with e have m: "(OpenFile ''out/d/f'' 420, Failed) \<in> set tr" by simp
  have "fatal_call (OpenFile ''out/d/f'' 420) \<and> Failed \<noteq> Ok" by simp
  with local_io_errors [of example_paths example_flags read_only example_archive tr res] e m
  have 1: "res = Some LogFatal" "last tr = (OpenFile ''out/d/f'' 420, Failed)" by blast+
  obtain tr' res' where e': "ExtractTar example_paths example_flags unprivileged example_archive = (tr', res')"
    by (cases "ExtractTar example_paths example_flags unprivileged example_archive")
  have "snd (ExtractTar example_paths example_flags unprivileged example_archive) = None"
    by code_simp
  with e' have n: "res' = None" by simp
  from local_io_errors [of example_paths example_flags unprivileged example_archive tr' res'] e' n
  have 2: "clean tr'"
    "agree (ExtractTar example_paths example_flags unprivileged example_archive)
            (ExtractTar example_paths example_flags (permissive unprivileged) example_archive)"
    by auto
  from 1 2 e e' show ?thesis by simp
qed

section \<open>Writer tasks in flight and the hard-link barrier\<close>

text \<open>
  Every step of the extractor keeps the accounting: the tokens in the channel and the
  writers that hold one add up to \<open>W\<close>, the wait group counts the writer goroutines
  alive, and the tasks started are those ended plus those alive.
\<close>

lemma extractor_step_balanced: "extractor_step W s s' \<Longrightarrow> balanced W s \<Longrightarrow> balanced W s'"
  by (induction rule: extractor_step.induct) (auto simp: balanced_def)

lemma reachable_balanced: "reachable W headers s \<Longrightarrow> balanced W s"
proof (induction rule: reachable.induct)
  case start
  show ?case by (simp add: balanced_def initial_def)
next
  case (further s s')
  then show ?case by (simp add: extractor_step_balanced)
qed

lemma extractor_step_linked:
  assumes "extractor_step W s s'" "linked s' \<noteq> linked s"
  shows "wg s = 0 \<and> linked s' = linked s + 1"
  using assms by (induction rule: extractor_step.induct) auto

text \<open>
  C6.  In every state that the extraction can reach, at most \<open>W\<close> regular-file writer
  tasks are in flight, \<open>W\<close> being the number of write workers: a task is in flight while
  it holds a token of \<open>openFileTokens\<close>, that is until its file is written and closed, and
  the tokens in the channel and the tasks in flight always add up to \<open>W\<close>.  And a hard
  link is created only when no regular-file write dispatched before it is outstanding: in
  a state from which a step creates a link, no writer goroutine is writing, none is between
  the return of its token and its \<open>wg.Done()\<close>, and every task dispatched so far has
  completed.
\<close>

theorem bounded_writers_and_link_barrier:
  "reachable W headers s \<longrightarrow>
     writing s \<le> W
     \<and> openFileTokens s + writing s = W
     \<and> (\<forall>s'. extractor_step W s s' \<and> linked s' \<noteq> linked s \<longrightarrow>
           writing s = 0 \<and> leaving s = 0 \<and> completed s = dispatched s)"
proof (intro impI conjI allI)
  assume r: "reachable W headers s"
  then have b: "balanced W s" by (rule reachable_balanced)
  then show "writing s \<le> W" "openFileTokens s + writing s = W"
    by (simp_all add: balanced_def)
  fix s' assume "extractor_step W s s' \<and> linked s' \<noteq> linked s"
  then have "wg s = 0" using extractor_step_linked by blast
  with b show "writing s = 0" "leaving s = 0" "completed s = dispatched s"
    by (simp_all add: balanced_def)
qed

text \<open>
  With one write worker and an archive of a regular file followed by a hard link: while
  the file is being written no step creates the link, and once the writer task has ended
  the link is created.
\<close>

theorem bounded_writers_and_link_barrier_witness:
  "reachable 1 [TypeReg, TypeLink] file_dispatched
   \<and> writing file_dispatched \<le> 1
   \<and> \<not> extractor_step 1 file_dispatched (file_dispatched\<lparr>todo := [], linked := 1\<rparr>)
   \<and> reachable 1 [TypeReg, TypeLink] file_written
   \<and> extractor_step 1 file_written (file_written\<lparr>todo := [], linked := 1\<rparr>)
   \<and> completed file_written = dispatched file_written"
proof -
  define s1 where "s1 = file_dispatched"
  define s2 where "s2 = file_dispatched\<lparr>writing := 0, leaving := 1, openFileTokens := 1\<rparr>"
  have r0: "reachable 1 [TypeReg, TypeLink] (initial 1 [TypeReg, TypeLink])"
    by (rule reachable.start)
  have "extractor_step 1 (initial 1 [TypeReg, TypeLink]) s1"
    using dispatch [of "initial 1 [TypeReg, TypeLink]" "[TypeLink]" 1]
    by (simp add: initial_def s1_def file_dispatched_def)
  with r0 have r1: "reachable 1 [TypeReg, TypeLink] s1" by (rule reachable.further)
  have "extractor_step 1 s1 s2"
    using release [of s1 1] by (simp add: s1_def s2_def file_dispatched_def)
  with r1 have r2: "reachable 1 [TypeReg, TypeLink] s2" by (rule reachable.further)
  have "extractor_step 1 s2 file_written"
    using task_done [of s2 1] by (simp add: s2_def file_dispatched_def file_written_def)
  with r2 have r3: "reachable 1 [TypeReg, TypeLink] file_written" by (rule reachable.further)
  have l: "extractor_step 1 file_written (file_written\<lparr>todo := [], linked := 1\<rparr>)"
    using link [of file_written "[]" 1] by (simp add: file_written_def)
  have n: "linked (file_written\<lparr>todo := [], linked := 1\<rparr>) \<noteq> linked file_written"
    "linked (file_dispatched\<lparr>todo := [], linked := 1\<rparr>) \<noteq> linked file_dispatched"
    by (simp_all add: file_written_def file_dispatched_def)
  have w: "writing file_dispatched \<noteq> 0" by (simp add: file_dispatched_def)
  from bounded_writers_and_link_barrier [of 1 "[TypeReg, TypeLink]" file_dispatched]
    r1 [unfolded s1_def]
  have a: "writing file_dispatched \<le> 1"
    and b: "\<forall>s'. extractor_step 1 file_dispatched s' \<and> linked s' \<noteq> linked file_dispatched \<longrightarrow>
           writing file_dispatched = 0 \<and> leaving file_dispatched = 0
           \<and> completed file_dispatched = dispatched file_dispatched"
    by simp_all
  have "\<not> extractor_step 1 file_dispatched (file_dispatched\<lparr>todo := [], linked := 1\<rparr>)"
  proof
    assume st: "extractor_step 1 file_dispatched (file_dispatched\<lparr>todo := [], linked := 1\<rparr>)"
    from spec [OF b, of "file_dispatched\<lparr>todo := [], linked := 1\<rparr>"] st n(2)
    have "writing file_dispatched = 0" by (elim impE) (rule conjI, assumption+, elim conjE)
    with w show False by (rule notE)
  qed
  moreover note a
  moreover from bounded_writers_and_link_barrier [of 1 "[TypeReg, TypeLink]" file_written] r3
  have c: "\<forall>s'. extractor_step 1 file_written s' \<and> linked s' \<noteq> linked file_written \<longrightarrow>
           writing file_written = 0 \<and> leaving file_written = 0
           \<and> completed file_written = dispatched file_written"
    by simp
  from spec [OF c, of "file_written\<lparr>todo := [], linked := 1\<rparr>"] l n(1)
  have "completed file_written = dispatched file_written" by (elim impE) (rule conjI, assumption+, elim conjE)
  moreover note r1 [unfolded s1_def] r3 l
  ultimately show ?thesis by (intro conjI)
qed

end
